theory Spec2Isabelle
  imports Complex_Main "HOL-Library.Sublist" "HOL-Library.AList" "HOL-Library.Log_Nat"
begin


section \<open>Python values and built-ins used by the token-spy core\<close>

text \<open>
  Strings are lists of characters; a character stands for one code point below 256, so
  \<open>length\<close> is Python's \<open>len\<close>. Python ints are unbounded integers. Exceptions
  are values: a fallible operation returns \<open>py_error + 'a\<close>.
\<close>

datatype py_error =
    KeyError
  | IndexError
  | ZeroDivisionError
  | AttributeError
  | TypeError
  | ValueError string

text \<open>\<open>d.get(k, default)\<close> and \<open>d[k]\<close> on a dict held as an association list.\<close>

definition dict_get :: "('k \<times> 'v) list \<Rightarrow> 'k \<Rightarrow> 'v \<Rightarrow> 'v" where
  "dict_get d k dflt = (case map_of d k of None \<Rightarrow> dflt | Some v \<Rightarrow> v)"

definition dict_index :: "('k \<times> 'v) list \<Rightarrow> 'k \<Rightarrow> py_error + 'v" where
  "dict_index d k = (case map_of d k of None \<Rightarrow> Inl KeyError | Some v \<Rightarrow> Inr v)"

text \<open>\<open>str.lower()\<close> on code points below 256: A-Z and the Latin-1 capitals.\<close>

definition lower_char :: "char \<Rightarrow> char" where
  "lower_char c =
     (let n = (of_char c :: nat)
      in if (65 \<le> n \<and> n \<le> 90) \<or> (192 \<le> n \<and> n \<le> 222 \<and> n \<noteq> 215)
         then char_of (n + 32) else c)"

definition lower :: "string \<Rightarrow> string" where
  "lower s = map lower_char s"

text \<open>
  \<open>p in s\<close> on strings is containment of \<open>p\<close> as a contiguous run of \<open>s\<close>:
  the library's \<^const>\<open>sublist\<close>, \<open>sublist p s = (\<exists>ps ss. s = ps @ p @ ss)\<close>.
\<close>

section \<open>Python floats\<close>

text \<open>
  A Python float is an IEEE 754 binary64 number. A finite double is held as the rational it
  denotes, and every float operation returns the double nearest to its exact result, a tie
  going to the neighbour with the even significand. \<open>ilog2 x\<close> is the binary exponent of
  \<open>x\<close>, the \<open>e\<close> with \<open>2\<^sup>e \<le> \<bar>x\<bar> < 2\<^sup>e\<^sup>+\<^sup>1\<close>; the doubles next to \<open>x\<close> are
  \<open>2\<^sup>e\<^sup>-\<^sup>5\<^sup>2\<close> apart (53 significant bits), and never closer than \<open>2\<^sup>-\<^sup>1\<^sup>0\<^sup>7\<^sup>4\<close>, the
  spacing of the subnormal numbers. \<open>fl x\<close> is the double nearest to \<open>x\<close>.

  The model covers the finite doubles: a result beyond the largest double (about 1.8e308),
  the infinities and NaN are outside it, and the two zeros are one value.
\<close>

definition round_half_even :: "rat \<Rightarrow> int" where
  "round_half_even x =
     (let f = \<lfloor>x\<rfloor>; d = x - of_int f
      in if d < 1/2 then f else if 1/2 < d then f + 1 else if even f then f else f + 1)"

definition ilog2 :: "rat \<Rightarrow> int" where
  "ilog2 x =
     (let (p, q) = quotient_of \<bar>x\<bar>;
          k = bitlen p - bitlen q
      in if 2 powi k \<le> \<bar>x\<bar> then k else k - 1)"

definition fl :: "rat \<Rightarrow> rat" where
  "fl x =
     (if x = 0 then 0
      else let q = max (ilog2 x - 52) (- 1074)
           in of_int (round_half_even (x / 2 powi q)) * 2 powi q)"

text \<open>
  \<open>float(n)\<close> for an int, as the mixed operations \<open>n * x\<close> and \<open>x / n\<close> apply it to
  their int operand; \<open>x * y\<close>, \<open>x + y\<close> and \<open>x / y\<close> on floats, the last for a divisor
  that is not zero.
\<close>

definition float_of_int :: "int \<Rightarrow> rat" where
  "float_of_int n = fl (of_int n)"

definition fmul :: "rat \<Rightarrow> rat \<Rightarrow> rat" where
  "fmul x y = fl (x * y)"

definition fadd :: "rat \<Rightarrow> rat \<Rightarrow> rat" where
  "fadd x y = fl (x + y)"

definition fdiv :: "rat \<Rightarrow> rat \<Rightarrow> rat" where
  "fdiv x y = fl (x / y)"

text \<open>
  True division with the exception Python raises: \<open>x / y\<close> for a float \<open>x\<close>, and
  \<open>a / b\<close> for two ints, which is the double nearest to the exact quotient.
\<close>

definition float_truediv :: "rat \<Rightarrow> rat \<Rightarrow> py_error + rat" where
  "float_truediv x y = (if y = 0 then Inl ZeroDivisionError else Inr (fdiv x y))"

definition int_truediv :: "int \<Rightarrow> int \<Rightarrow> py_error + rat" where
  "int_truediv a b =
     (if b = 0 then Inl ZeroDivisionError else Inr (fl (of_int a / of_int b)))"

text \<open>
  \<open>round(x, n)\<close>: the exact value of \<open>x\<close> is rounded to \<open>n\<close> decimal places, ties to
  the even neighbour, and the double nearest to that decimal is returned.
\<close>

definition py_round :: "rat \<Rightarrow> nat \<Rightarrow> rat" where
  "py_round x n = fl (of_int (round_half_even (x * 10 ^ n)) / 10 ^ n)"

text \<open>
  The built-in \<open>sum\<close> over floats is a parameter \<open>py_sum\<close> of the functions that call it:
  how it rounds depends on the interpreter. \<open>sum_left\<close> adds from left to right, starting
  from 0 and rounding after each addition, which is what CPython up to 3.11 computes; later
  versions carry a compensation term along.
\<close>

definition sum_left :: "rat list \<Rightarrow> rat" where
  "sum_left xs = foldl fadd 0 xs"

section \<open>JSON values\<close>

text \<open>
  Parsed JSON values as Python holds them, with the operations the request analysis and the
  stream extractors apply to them.
  Only a dict has \<open>.get\<close>: on any other value the attribute lookup raises AttributeError.
\<close>

datatype json =
    JNull
  | JBool bool
  | JInt int
  | JFloat rat
  | JStr string
  | JArr "json list"
  | JObj "(string \<times> json) list"

definition py_bind :: "py_error + 'a \<Rightarrow> ('a \<Rightarrow> py_error + 'b) \<Rightarrow> py_error + 'b" where
  "py_bind r f = (case r of Inl e \<Rightarrow> Inl e | Inr x \<Rightarrow> f x)"

text \<open>The truth value of \<open>if v:\<close>.\<close>

definition truthy :: "json \<Rightarrow> bool" where
  "truthy v =
     (case v of
        JNull \<Rightarrow> False
      | JBool b \<Rightarrow> b
      | JInt n \<Rightarrow> n \<noteq> 0
      | JFloat x \<Rightarrow> x \<noteq> 0
      | JStr s \<Rightarrow> s \<noteq> []
      | JArr xs \<Rightarrow> xs \<noteq> []
      | JObj kvs \<Rightarrow> kvs \<noteq> [])"

text \<open>\<open>v.get(key, default)\<close>, \<open>v[key]\<close> for a string key, and \<open>v[0]\<close>.\<close>

definition py_get :: "json \<Rightarrow> string \<Rightarrow> json \<Rightarrow> py_error + json" where
  "py_get v key dflt =
     (case v of JObj kvs \<Rightarrow> Inr (dict_get kvs key dflt) | _ \<Rightarrow> Inl AttributeError)"

definition py_item :: "json \<Rightarrow> string \<Rightarrow> py_error + json" where
  "py_item v key = (case v of JObj kvs \<Rightarrow> dict_index kvs key | _ \<Rightarrow> Inl TypeError)"

definition py_item0 :: "json \<Rightarrow> py_error + json" where
  "py_item0 v =
     (case v of
        JArr xs \<Rightarrow> (case xs of [] \<Rightarrow> Inl IndexError | x # _ \<Rightarrow> Inr x)
      | JStr s \<Rightarrow> (case s of [] \<Rightarrow> Inl IndexError | c # _ \<Rightarrow> Inr (JStr [c]))
      | JObj kvs \<Rightarrow> Inl KeyError
      | _ \<Rightarrow> Inl TypeError)"

text \<open>
  \<open>len(v)\<close> and the items of \<open>for x in v\<close>: a list has its elements, a string its
  characters, a dict its keys; any other value raises TypeError.
\<close>

definition py_len :: "json \<Rightarrow> py_error + nat" where
  "py_len v =
     (case v of
        JArr xs \<Rightarrow> Inr (length xs)
      | JStr s \<Rightarrow> Inr (length s)
      | JObj kvs \<Rightarrow> Inr (length (remdups (map fst kvs)))
      | _ \<Rightarrow> Inl TypeError)"

definition py_iter :: "json \<Rightarrow> py_error + json list" where
  "py_iter v =
     (case v of
        JArr xs \<Rightarrow> Inr xs
      | JStr s \<Rightarrow> Inr (map (\<lambda>c. JStr [c]) s)
      | JObj kvs \<Rightarrow> Inr (map JStr (remdups (map fst kvs)))
      | _ \<Rightarrow> Inl TypeError)"

section \<open>Pricing lookup (providers/anthropic.py, providers/openai.py)\<close>

type_synonym rates = "(string \<times> rat) list"
type_synonym cost_table = "(string \<times> rates) list"

text \<open>
  A rate dict; each rate is the double of the decimal literal written in the source, so
  \<open>0.10\<close> is \<open>fl (1/10)\<close>.
\<close>

definition mk_rates :: "rat \<Rightarrow> rat \<Rightarrow> rat \<Rightarrow> rat \<Rightarrow> rates" where
  "mk_rates i out cr cw =
     [(''input'', fl i), (''output'', fl out), (''cache_read'', fl cr), (''cache_write'', fl cw)]"

definition anthropic_COST_TABLE :: cost_table where
  "anthropic_COST_TABLE =
    [(''claude-opus-4-6'', mk_rates 5 25 (1/2) (25/4)),
     (''claude-opus-4-5'', mk_rates 5 25 (1/2) (25/4)),
     (''claude-opus-4-1'', mk_rates 15 75 (3/2) (75/4)),
     (''claude-opus-4'', mk_rates 15 75 (3/2) (75/4)),
     (''claude-sonnet-4'', mk_rates 3 15 (3/10) (15/4)),
     (''claude-haiku-4-5'', mk_rates 1 5 (1/10) (5/4)),
     (''claude-haiku-3-5'', mk_rates (4/5) 4 (2/25) 1),
     (''claude-haiku'', mk_rates (4/5) 4 (2/25) 1)]"

definition openai_COST_TABLE :: cost_table where
  "openai_COST_TABLE =
    [(''kimi-k2-0711'', mk_rates (3/5) 3 (1/10) (3/5)),
     (''kimi-k2-0905'', mk_rates (3/5) (5/2) (3/20) (3/5)),
     (''kimi-k2-thinking'', mk_rates (3/5) (5/2) (3/20) (3/5)),
     (''kimi-k2.5'', mk_rates (3/5) (5/2) (3/20) (3/5)),
     (''kimi-k2'', mk_rates (3/5) (5/2) (3/20) (3/5)),
     (''gpt-4o'', mk_rates (5/2) 10 (5/4) 0),
     (''gpt-4o-mini'', mk_rates (3/20) (3/5) (3/40) 0),
     (''gpt-4-turbo'', mk_rates 10 30 0 0),
     (''gpt-4'', mk_rates 30 60 0 0),
     (''gpt-3.5-turbo'', mk_rates (1/2) (3/2) 0 0),
     (''o1'', mk_rates 15 60 (15/2) 0),
     (''o1-mini'', mk_rates 3 12 (3/2) 0),
     (''o1-pro'', mk_rates 150 600 0 0),
     (''deepseek-chat'', mk_rates (27/100) (11/10) (7/100) (27/100)),
     (''deepseek-reasoner'', mk_rates (11/20) (219/100) (7/50) (11/20)),
     (''qwen'', mk_rates 0 0 0 0),
     (''llama'', mk_rates 0 0 0 0),
     (''mistral'', mk_rates 0 0 0 0)]"

text \<open>
  \<open>sorted(COST_TABLE.keys(), key=len, reverse=True)\<close>: Python's sort is stable and
  \<open>reverse=True\<close> keeps the dict order among keys of equal length, so it is the stable
  sort by negated length.
\<close>

definition keys_longest_first :: "cost_table \<Rightarrow> string list" where
  "keys_longest_first tbl = sort_key (\<lambda>k. - int (length k)) (map fst tbl)"

text \<open>The \<open>for prefix in ...: if prefix in model_lower: return COST_TABLE[prefix]\<close> loop
  and the default after it.\<close>

fun scan_prefixes :: "cost_table \<Rightarrow> string list \<Rightarrow> string \<Rightarrow> py_error + rates" where
  "scan_prefixes tbl [] model_lower = Inr (mk_rates 0 0 0 0)"
| "scan_prefixes tbl (p # ps) model_lower =
     (if sublist p model_lower then dict_index tbl p
      else scan_prefixes tbl ps model_lower)"

definition get_model_pricing :: "cost_table \<Rightarrow> string \<Rightarrow> py_error + rates" where
  "get_model_pricing tbl model = scan_prefixes tbl (keys_longest_first tbl) (lower model)"

section \<open>Cost calculation (providers/base.py)\<close>

type_synonym usage = "(string \<times> int) list"




section \<open>Session status (db.py)\<close>

text \<open>
  One row of the query in \<open>query_session_status\<close>: the selected columns, each of which
  may be NULL (\<open>None\<close>). The rows arrive in ascending timestamp order; the SQL query
  itself belongs to the store and is not modelled.
\<close>

record usage_row =
  conversation_history_chars :: "int option"
  cache_read_tokens :: "int option"
  cache_write_tokens :: "int option"
  estimated_cost_usd :: "rat option"

text \<open>The three counts are ints and the cost is a float (section Python floats).\<close>

text \<open>\<open>v or 0\<close> for a column value.\<close>

definition or0 :: "'a::zero option \<Rightarrow> 'a" where
  "or0 v = (case v of None \<Rightarrow> 0 | Some x \<Rightarrow> x)"

text \<open>\<open>xs[-1]\<close>, with the exception Python raises.\<close>

definition last_item :: "'a list \<Rightarrow> py_error + 'a" where
  "last_item xs = (if xs = [] then Inl IndexError else Inr (last xs))"

text \<open>
  The test of the boundary loop at index \<open>i\<close> (\<open>1 \<le> i < len(rows)\<close>). Python
  compares an int with a float by their exact values, and \<open>prev * 0.5\<close> is exactly half
  of \<open>prev\<close> for every count below \<open>2\<^sup>5\<^sup>3\<close> (lemma \<open>half_exact\<close>), so the
  comparison is written over the exact half.
\<close>

definition is_reset :: "usage_row list \<Rightarrow> nat \<Rightarrow> bool" where
  "is_reset rows i =
     (let prev = or0 (conversation_history_chars (rows ! (i - 1)));
          curr = or0 (conversation_history_chars (rows ! i))
      in prev > 1000 \<and> (of_int curr :: rat) < of_int prev * (1/2))"

text \<open>\<open>last_reset_idx = 0; for i in range(1, len(rows)): if ...: last_reset_idx = i\<close>.\<close>

definition last_reset_idx :: "usage_row list \<Rightarrow> nat" where
  "last_reset_idx rows =
     fold (\<lambda>i idx. if is_reset rows i then i else idx) [1..<length rows] 0"

text \<open>\<open>rows[last_reset_idx:]\<close> and \<open>session_rows[-5:]\<close>.\<close>

definition session_rows :: "usage_row list \<Rightarrow> usage_row list" where
  "session_rows rows = drop (last_reset_idx rows) rows"

definition last_5 :: "usage_row list \<Rightarrow> usage_row list" where
  "last_5 session = drop (length session - 5) session"

text \<open>
  \<open>sum(r["estimated_cost_usd"] or 0 for r in session_rows)\<close>, the same sum over the
  last five rows divided by \<open>max(len(last_5), 1)\<close>, and the two int sums of the cache
  counts with their quotient \<open>total_write_5 / max(total_cache_5, 1)\<close>.
\<close>

definition total_cost :: "(rat list \<Rightarrow> rat) \<Rightarrow> usage_row list \<Rightarrow> rat" where
  "total_cost py_sum session = py_sum (map (\<lambda>r. or0 (estimated_cost_usd r)) session)"

definition avg_cost_5 :: "(rat list \<Rightarrow> rat) \<Rightarrow> usage_row list \<Rightarrow> py_error + rat" where
  "avg_cost_5 py_sum l5 =
     float_truediv (py_sum (map (\<lambda>r. or0 (estimated_cost_usd r)) l5))
                   (float_of_int (int (max (length l5) 1)))"

definition cache_write_pct :: "usage_row list \<Rightarrow> py_error + rat" where
  "cache_write_pct l5 =
     (let total_cache_5 = (\<Sum>r \<leftarrow> l5. or0 (cache_read_tokens r) + or0 (cache_write_tokens r));
          total_write_5 = (\<Sum>r \<leftarrow> l5. or0 (cache_write_tokens r))
      in int_truediv total_write_5 (max total_cache_5 1))"

text \<open>
  The recommendation chain; \<open>pct\<close> is the float \<open>cache_write_pct\<close>, compared with
  the double of the literal \<open>0.20\<close>, and \<open>n\<close> is \<open>len(last_5)\<close>. The product
  \<open>char_limit * 2.5\<close> is exact for every limit up to \<open>2\<^sup>5\<^sup>0\<close> (lemma
  \<open>threshold_exact\<close>), so the first comparison is written over the exact product.
\<close>

definition recommend :: "int \<Rightarrow> int \<Rightarrow> rat \<Rightarrow> nat \<Rightarrow> string" where
  "recommend current_history char_limit pct n =
     (if (of_int current_history :: rat) > of_int char_limit * (5/2) then ''reset_recommended''
      else if current_history > char_limit * 2 then ''compact_soon''
      else if current_history > char_limit then ''monitor''
      else if pct > fl (1/5) \<and> n \<ge> 3 then ''cache_unstable''
      else ''healthy'')"

record session_status =
  agent :: string
  current_session_turns :: nat
  current_history_chars :: int
  last_turn_cost :: rat
  avg_cost_last_5 :: rat
  cache_write_pct_last_5 :: rat
  cost_since_last_reset :: rat
  turns_since_last_reset :: nat
  recommendation :: string

text \<open>
  \<open>query_session_status\<close> on the rows the store returned for the agent; \<open>py_sum\<close>
  is the built-in \<open>sum\<close> on floats.
\<close>

definition query_session_status ::
  "(rat list \<Rightarrow> rat) \<Rightarrow> string \<Rightarrow> usage_row list \<Rightarrow> int \<Rightarrow> py_error + session_status" where
  "query_session_status py_sum ag rows char_limit =
     (if rows = [] then
        Inr \<lparr>agent = ag, current_session_turns = 0, current_history_chars = 0,
             last_turn_cost = 0, avg_cost_last_5 = 0, cache_write_pct_last_5 = 0,
             cost_since_last_reset = 0, turns_since_last_reset = 0,
             recommendation = ''no_data''\<rparr>
      else
        let session = session_rows rows in
        case last_item session of
          Inl e \<Rightarrow> Inl e
        | Inr final \<Rightarrow>
            let current_history = or0 (conversation_history_chars final);
                last_cost = or0 (estimated_cost_usd final);
                total = total_cost py_sum session;
                l5 = last_5 session
            in case avg_cost_5 py_sum l5 of
                 Inl e \<Rightarrow> Inl e
               | Inr avg \<Rightarrow>
                   (case cache_write_pct l5 of
                      Inl e \<Rightarrow> Inl e
                    | Inr pct \<Rightarrow>
                        Inr \<lparr>agent = ag, current_session_turns = length session,
                             current_history_chars = current_history,
                             last_turn_cost = py_round last_cost 6,
                             avg_cost_last_5 = py_round avg 6,
                             cache_write_pct_last_5 = py_round pct 4,
                             cost_since_last_reset = py_round total 6,
                             turns_since_last_reset = length session,
                             recommendation =
                               recommend current_history char_limit pct (length l5)\<rparr>))"

text \<open>
  Rows used in the worked examples: history chars, cache-read tokens, cache-write tokens and
  estimated cost, the cost being the double of the decimal given. The first window is the one
  of the specification's boundary example; the last two have cache counts whose quotient is
  not a double.
\<close>

definition example_row :: "int \<Rightarrow> int \<Rightarrow> int \<Rightarrow> rat \<Rightarrow> usage_row" where
  "example_row h cr cw c =
     \<lparr>conversation_history_chars = Some h, cache_read_tokens = Some cr,
      cache_write_tokens = Some cw, estimated_cost_usd = Some (fl c)\<rparr>"

definition example_window :: "usage_row list" where
  "example_window =
     [example_row 50 0 0 (1/100), example_row 5000 0 0 (2/100), example_row 40000 0 0 (3/100),
      example_row 500 0 0 (25/10000000), example_row 8000 0 0 (3/1000000)]"

definition example_cache_window :: "usage_row list" where
  "example_cache_window =
     [example_row 1000 300 100 (1/100), example_row 2000 300 100 (1/100),
      example_row 3000 300 100 (1/100)]"

definition example_small_ratio :: "usage_row list" where
  "example_small_ratio = [example_row 1000 19999 1 (1/100)]"

definition example_ratio :: "usage_row list" where
  "example_ratio = [example_row 1000 18084 3036 (1/100)]"

section \<open>Request analysis of the Anthropic provider (providers/anthropic.py)\<close>

definition WORKSPACE_FILE_MAP :: "(string \<times> string) list" where
  "WORKSPACE_FILE_MAP =
     [(''AGENTS.md'', ''workspace_agents_chars''),
      (''SOUL.md'', ''workspace_soul_chars''),
      (''TOOLS.md'', ''workspace_tools_chars''),
      (''IDENTITY.md'', ''workspace_identity_chars''),
      (''USER.md'', ''workspace_user_chars''),
      (''HEARTBEAT.md'', ''workspace_heartbeat_chars''),
      (''BOOTSTRAP.md'', ''workspace_bootstrap_chars''),
      (''MEMORY.md'', ''workspace_memory_chars'')]"

text \<open>
  The value under a block's \<open>"text"\<close> key: a string, or another value, held by its
  \<open>str()\<close> rendering. A block of the system list is a dict (whose \<open>"text"\<close> key may
  be absent) or something else. The \<open>system\<close> value is a string, a list, or another value,
  of which only the truth value matters.
\<close>

datatype text_field = TextStr string | TextOther string

datatype block = NonDict | DictBlock "text_field option"

datatype system_value = SysStr string | SysList "block list" | SysOther bool

text \<open>Result dicts map metric keys to counts.\<close>

type_synonym metrics = "string \<rightharpoonup> int"

text \<open>\<open>for key in WORKSPACE_FILE_MAP.values(): result[key] = 0\<close>.\<close>

definition zero_workspace :: "metrics \<Rightarrow> metrics" where
  "zero_workspace result = fold (\<lambda>key r. r(key \<mapsto> 0)) (map snd WORKSPACE_FILE_MAP) result"

text \<open>
  The inner loop over \<open>WORKSPACE_FILE_MAP.items()\<close>: the metric key of the first file
  name whose marker is in the text, \<open>None\<close> when the loop ends without a match.
\<close>

fun match_workspace :: "(string \<times> string) list \<Rightarrow> string \<Rightarrow> string option" where
  "match_workspace [] text = None"
| "match_workspace ((filename, metric_key) # rest) text =
     (if sublist (''## '' @ filename) text \<or> sublist (''# '' @ filename) text
      then Some metric_key
      else match_workspace rest text)"

text \<open>
  \<open>text = block.get("text", ""); if not isinstance(text, str): text = str(text)\<close>;
  \<open>None\<close> for a block that is not a dict, which the loop skips.
\<close>

definition block_text :: "block \<Rightarrow> string option" where
  "block_text b =
     (case b of
        NonDict \<Rightarrow> None
      | DictBlock None \<Rightarrow> Some []
      | DictBlock (Some (TextStr s)) \<Rightarrow> Some s
      | DictBlock (Some (TextOther s)) \<Rightarrow> Some s)"

record prompt_acc =
  total_chars :: int
  base_chars :: int
  workspace_chars :: metrics

text \<open>One iteration of \<open>for block in blocks\<close>.\<close>

definition analyze_block :: "prompt_acc \<Rightarrow> block \<Rightarrow> py_error + prompt_acc" where
  "analyze_block acc b =
     (case block_text b of
        None \<Rightarrow> Inr acc
      | Some text \<Rightarrow>
          let block_len = int (length text);
              acc1 = acc\<lparr>total_chars := total_chars acc + block_len\<rparr>
          in case match_workspace WORKSPACE_FILE_MAP text of
               Some metric_key \<Rightarrow>
                 (case workspace_chars acc1 metric_key of
                    None \<Rightarrow> Inl KeyError
                  | Some v \<Rightarrow>
                      Inr (acc1\<lparr>workspace_chars :=
                                  (workspace_chars acc1)(metric_key \<mapsto> v + block_len)\<rparr>))
             | None \<Rightarrow> Inr (acc1\<lparr>base_chars := base_chars acc1 + block_len\<rparr>))"

fun analyze_blocks :: "block list \<Rightarrow> prompt_acc \<Rightarrow> py_error + prompt_acc" where
  "analyze_blocks [] acc = Inr acc"
| "analyze_blocks (b # bs) acc =
     (case analyze_block acc b of Inl e \<Rightarrow> Inl e | Inr acc' \<Rightarrow> analyze_blocks bs acc')"

text \<open>\<open>AnthropicProvider._analyze_system_prompt\<close>.\<close>

definition analyze_system_prompt :: "system_value \<Rightarrow> py_error + metrics" where
  "analyze_system_prompt sys =
     (let result = zero_workspace [''system_prompt_total_chars'' \<mapsto> 0, ''base_prompt_chars'' \<mapsto> 0]
      in case (case sys of
                 SysStr s \<Rightarrow> Some [DictBlock (Some (TextStr s))]
               | SysList bs \<Rightarrow> Some bs
               | SysOther t \<Rightarrow> None) of
           None \<Rightarrow> Inr result
         | Some blocks \<Rightarrow>
             (case analyze_blocks blocks
                     \<lparr>total_chars = 0, base_chars = 0,
                      workspace_chars = zero_workspace Map.empty\<rparr> of
                Inl e \<Rightarrow> Inl e
              | Inr acc \<Rightarrow>
                  Inr ((result(''system_prompt_total_chars'' \<mapsto> total_chars acc,
                               ''base_prompt_chars'' \<mapsto> base_chars acc))
                       ++ workspace_chars acc)))"

text \<open>
  The request body is the dict parsed from the JSON request. \<open>system_of_json\<close> and
  \<open>block_of_json\<close> read the value under \<open>"system"\<close> and the items of a system list
  by the cases \<open>_analyze_system_prompt\<close> distinguishes with \<open>isinstance\<close>;
  \<open>py_str\<close> is \<open>str()\<close> on a value that is not a string.
\<close>

definition block_of_json :: "(json \<Rightarrow> string) \<Rightarrow> json \<Rightarrow> block" where
  "block_of_json py_str v =
     (case v of
        JObj kvs \<Rightarrow>
          DictBlock (case map_of kvs ''text'' of
                       None \<Rightarrow> None
                     | Some (JStr s) \<Rightarrow> Some (TextStr s)
                     | Some t \<Rightarrow> Some (TextOther (py_str t)))
      | _ \<Rightarrow> NonDict)"

definition system_of_json :: "(json \<Rightarrow> string) \<Rightarrow> json \<Rightarrow> system_value" where
  "system_of_json py_str v =
     (case v of
        JStr s \<Rightarrow> SysStr s
      | JArr xs \<Rightarrow> SysList (map (block_of_json py_str) xs)
      | _ \<Rightarrow> SysOther (truthy v))"

definition truthy_system :: "system_value \<Rightarrow> bool" where
  "truthy_system sys =
     (case sys of SysStr s \<Rightarrow> s \<noteq> [] | SysList bs \<Rightarrow> bs \<noteq> [] | SysOther t \<Rightarrow> t)"

text \<open>
  The loop of \<open>_analyze_messages\<close> over the items of \<open>messages\<close>:
  \<open>msg.get("role", "")\<close> raises AttributeError at the first item that is not a dict.
\<close>

fun count_roles :: "json list \<Rightarrow> nat \<times> nat \<Rightarrow> py_error + nat \<times> nat" where
  "count_roles [] counts = Inr counts"
| "count_roles (msg # rest) (user_count, assistant_count) =
     (case py_get msg ''role'' (JStr []) of
        Inl e \<Rightarrow> Inl e
      | Inr role \<Rightarrow>
          count_roles rest
            (if role = JStr ''user'' then (user_count + 1, assistant_count)
             else if role = JStr ''assistant'' then (user_count, assistant_count + 1)
             else (user_count, assistant_count)))"

text \<open>
  \<open>AnthropicProvider._analyze_messages\<close>. The \<open>for\<close> loop raises TypeError when
  \<open>messages\<close> cannot be iterated. \<open>json_dumps\<close> is
  \<open>json.dumps(messages, separators=(",", ":"))\<close>, \<open>None\<close> when it raises the
  TypeError or ValueError that the function catches.
\<close>

definition analyze_messages :: "(json \<Rightarrow> string option) \<Rightarrow> json \<Rightarrow> py_error + metrics" where
  "analyze_messages json_dumps messages =
     py_bind (py_iter messages) (\<lambda>msgs.
     py_bind (count_roles msgs (0, 0)) (\<lambda>(user_count, assistant_count).
       let history_chars =
             (case json_dumps messages of
                None \<Rightarrow> 0
              | Some history_str \<Rightarrow> int (length history_str))
       in py_bind (py_len messages) (\<lambda>message_count.
            Inr [''message_count'' \<mapsto> int message_count,
                 ''user_message_count'' \<mapsto> int user_count,
                 ''assistant_message_count'' \<mapsto> int assistant_count,
                 ''conversation_history_chars'' \<mapsto> history_chars])))"

text \<open>
  \<open>AnthropicProvider.analyze_request\<close> on the body dict: the system prompt is analysed
  when it is truthy, then the messages, then \<open>len(body.get("tools", []))\<close>, which raises
  TypeError on a value without a length.
\<close>

definition analyze_request ::
  "(json \<Rightarrow> string) \<Rightarrow> (json \<Rightarrow> string option) \<Rightarrow> (string \<times> json) list \<Rightarrow>
   py_error + metrics" where
  "analyze_request py_str json_dumps body =
     (let result = zero_workspace
            [''system_prompt_total_chars'' \<mapsto> 0, ''base_prompt_chars'' \<mapsto> 0,
             ''message_count'' \<mapsto> 0, ''user_message_count'' \<mapsto> 0,
             ''assistant_message_count'' \<mapsto> 0, ''conversation_history_chars'' \<mapsto> 0,
             ''tool_count'' \<mapsto> 0];
          system = dict_get body ''system'' (JArr [])
      in py_bind (if truthy system
                  then py_bind (analyze_system_prompt (system_of_json py_str system))
                         (\<lambda>sys_analysis. Inr (result ++ sys_analysis))
                  else Inr result) (\<lambda>result1.
         py_bind (analyze_messages json_dumps (dict_get body ''messages'' (JArr [])))
           (\<lambda>msg_analysis.
         py_bind (py_len (dict_get body ''tools'' (JArr []))) (\<lambda>tool_count.
           Inr ((result1 ++ msg_analysis)(''tool_count'' \<mapsto> int tool_count))))))"

text \<open>Reading a key of a returned dict, \<open>None\<close> when the call raised.\<close>

definition metric_of :: "py_error + metrics \<Rightarrow> string \<Rightarrow> int option" where
  "metric_of r k = (case r of Inl e \<Rightarrow> None | Inr m \<Rightarrow> m k)"

text \<open>
  The heading test in the wording of the specification's wire-format section, for
  comparison with \<open>match_workspace\<close>: some line of the text begins with one or two
  heading markers followed by the file name, with or without a space between them.
\<close>

fun split_lines :: "string \<Rightarrow> string list" where
  "split_lines [] = [[]]"
| "split_lines (c # cs) =
     (if c = CHR 0x0A then [] # split_lines cs
      else (case split_lines cs of l # ls \<Rightarrow> (c # l) # ls | [] \<Rightarrow> [[c]]))"

definition heading_line_in_spec_words :: "string \<Rightarrow> string \<Rightarrow> bool" where
  "heading_line_in_spec_words filename text =
     list_ex (\<lambda>line. prefix (''# '' @ filename) line \<or> prefix (''## '' @ filename) line \<or>
                     prefix (''#'' @ filename) line \<or> prefix (''##'' @ filename) line)
       (split_lines text)"

text \<open>
  What one block contributes and where: its text length (0 for a skipped block) and the
  metric key the loop attributes it to (\<open>None\<close>: the base prompt). \<open>system_blocks\<close>
  is the block list the function iterates over, and \<open>section_chars\<close> adds up the lengths
  of the blocks attributed to one destination.
\<close>

definition block_len :: "block \<Rightarrow> int" where
  "block_len b = (case block_text b of None \<Rightarrow> 0 | Some t \<Rightarrow> int (length t))"

definition block_section :: "block \<Rightarrow> string option" where
  "block_section b =
     (case block_text b of None \<Rightarrow> None | Some t \<Rightarrow> match_workspace WORKSPACE_FILE_MAP t)"

definition system_blocks :: "system_value \<Rightarrow> block list" where
  "system_blocks sys =
     (case sys of SysStr s \<Rightarrow> [DictBlock (Some (TextStr s))] | SysList bs \<Rightarrow> bs | SysOther t \<Rightarrow> [])"

definition section_chars :: "block list \<Rightarrow> string option \<Rightarrow> int" where
  "section_chars bs sec = (\<Sum>b \<leftarrow> bs. if block_section b = sec then block_len b else 0)"

text \<open>A system prompt used in the worked example.\<close>

definition example_blocks :: "block list" where
  "example_blocks =
     [DictBlock (Some (TextStr ''## SOUL.md be kind'')),
      DictBlock (Some (TextStr ''You are a helpful agent'')),
      DictBlock (Some (TextStr ''intro # AGENTS.md then # SOUL.md'')),
      NonDict,
      DictBlock None]"

text \<open>
  The shapes of the \<open>messages\<close> and \<open>tools\<close> values that decide whether
  \<open>analyze_request\<close> returns: \<open>has_len\<close> holds of the values with a length, which are
  also the values a \<open>for\<close> loop iterates over, and \<open>dicts_only\<close> of those among them
  whose items are all dicts, namely a list of dicts, the empty string and the empty dict.
\<close>

definition is_dict :: "json \<Rightarrow> bool" where
  "is_dict v = (case v of JObj kvs \<Rightarrow> True | _ \<Rightarrow> False)"

definition has_len :: "json \<Rightarrow> bool" where
  "has_len v = (case v of JArr xs \<Rightarrow> True | JStr s \<Rightarrow> True | JObj kvs \<Rightarrow> True | _ \<Rightarrow> False)"

definition dicts_only :: "json \<Rightarrow> bool" where
  "dicts_only v =
     (case v of
        JArr xs \<Rightarrow> list_all is_dict xs
      | JStr s \<Rightarrow> s = []
      | JObj kvs \<Rightarrow> kvs = []
      | _ \<Rightarrow> False)"

text \<open>
  Request bodies used in the worked examples, with \<open>str()\<close> and \<open>json.dumps\<close> on the
  values that occur in them.
\<close>

definition example_py_str :: "json \<Rightarrow> string" where
  "example_py_str v = (if v = JInt 12345 then ''12345'' else ''None'')"

definition example_json_dumps :: "json \<Rightarrow> string option" where
  "example_json_dumps v = (if v = JArr [] then Some ''[]'' else None)"

definition example_body :: "(string \<times> json) list" where
  "example_body =
     [(''system'',
       JArr [JObj [(''type'', JStr ''text''), (''text'', JStr ''## SOUL.md be kind'')],
             JObj [(''type'', JStr ''text''), (''text'', JStr ''You are a helpful agent'')],
             JStr ''not a block'',
             JObj [(''text'', JInt 12345)]]),
      (''messages'', JArr []),
      (''tools'', JArr [])]"

definition example_body_null_tools :: "(string \<times> json) list" where
  "example_body_null_tools = [(''tools'', JNull)]"

definition example_body_bad_message :: "(string \<times> json) list" where
  "example_body_bad_message = [(''messages'', JArr [JStr ''hello''])]"

section \<open>Provider registry (providers/registry.py)\<close>

text \<open>
  The registry's class-level state: \<open>_providers\<close> and \<open>_instances\<close> as dicts in
  insertion order, and the provider objects constructed so far. A reference to an object is
  its index in \<open>heap\<close>, so two references denote the same instance exactly when they are
  equal. A config is a dict; its values are held as strings.
\<close>

datatype provider_class =
  AnthropicProvider | OpenAICompatibleProvider | MoonshotProvider | LocalProvider

type_synonym config = "(string \<times> string) list"

record provider_obj =
  obj_class :: provider_class
  obj_config :: config

record registry =
  providers :: "(string \<times> provider_class) list"
  instances :: "(string \<times> nat) list"
  heap :: "provider_obj list"

definition empty_registry :: registry where
  "empty_registry = \<lparr>providers = [], instances = [], heap = []\<rparr>"

text \<open>\<open>cls._providers[name.lower()] = provider_class\<close>.\<close>

definition register :: "registry \<Rightarrow> string \<Rightarrow> provider_class \<Rightarrow> registry" where
  "register reg name cls = reg\<lparr>providers := AList.update (lower name) cls (providers reg)\<rparr>"

text \<open>The registry after the four \<open>@register_provider\<close> decorators have run.\<close>

definition initial_registry :: registry where
  "initial_registry =
     register (register (register (register empty_registry
       ''anthropic'' AnthropicProvider) ''openai'' OpenAICompatibleProvider)
       ''moonshot'' MoonshotProvider) ''local'' LocalProvider"

text \<open>
  Calling a provider class: \<open>LLMProvider.__init__\<close> stores \<open>config or {}\<close>, and the new
  object gets a reference no earlier object has.
\<close>

definition construct :: "registry \<Rightarrow> provider_class \<Rightarrow> config option \<Rightarrow> nat \<times> registry" where
  "construct reg cls cfg =
     (length (heap reg),
      reg\<lparr>heap := heap reg @
             [\<lparr>obj_class = cls, obj_config = (case cfg of None \<Rightarrow> [] | Some c \<Rightarrow> c)\<rparr>]\<rparr>)"

text \<open>\<open>sep.join(xs)\<close> and the truth value of an optional dict (\<open>if config:\<close>).\<close>

fun join :: "string \<Rightarrow> string list \<Rightarrow> string" where
  "join sep [] = []"
| "join sep [x] = x"
| "join sep (x # y # ys) = x @ sep @ join sep (y # ys)"

definition truthy_config :: "config option \<Rightarrow> bool" where
  "truthy_config cfg = (case cfg of None \<Rightarrow> False | Some c \<Rightarrow> c \<noteq> [])"

text \<open>\<open>ProviderRegistry.get\<close>: the result or the exception, and the registry afterwards.\<close>

definition get :: "registry \<Rightarrow> string \<Rightarrow> config option \<Rightarrow> (py_error + nat) \<times> registry" where
  "get reg name cfg =
     (let name_lower = lower name
      in case map_of (providers reg) name_lower of
           None \<Rightarrow>
             (let joined = join '', '' (map fst (providers reg));
                  available = (if joined = [] then ''none'' else joined)
              in (Inl (ValueError (''Unknown provider: '' @ name @ ''. Available: '' @ available)),
                  reg))
         | Some cls \<Rightarrow>
             if truthy_config cfg then
               (let (obj, reg') = construct reg cls cfg in (Inr obj, reg'))
             else
               (case map_of (instances reg) name_lower of
                  Some obj \<Rightarrow> (Inr obj, reg)
                | None \<Rightarrow>
                    (let (obj, reg') = construct reg cls None
                     in (Inr obj,
                         reg'\<lparr>instances := AList.update name_lower obj (instances reg')\<rparr>))))"

text \<open>\<open>clear_cache\<close> and \<open>unregister\<close>.\<close>

definition clear_cache :: "registry \<Rightarrow> registry" where
  "clear_cache reg = reg\<lparr>instances := []\<rparr>"

definition unregister :: "registry \<Rightarrow> string \<Rightarrow> bool \<times> registry" where
  "unregister reg name =
     (let name_lower = lower name
      in if map_of (providers reg) name_lower \<noteq> None
         then (True, reg\<lparr>providers := AList.delete name_lower (providers reg),
                          instances := AList.delete name_lower (instances reg)\<rparr>)
         else (False, reg))"

text \<open>Every cached reference denotes a constructed object: the invariant of the registry.\<close>

definition cache_valid :: "registry \<Rightarrow> bool" where
  "cache_valid reg = list_all (\<lambda>(n, obj). obj < length (heap reg)) (instances reg)"

section \<open>Usage extraction from stream frames (providers/anthropic.py, providers/openai.py)\<close>

text \<open>\<open>str.strip()\<close>: white space among the code points below 256.\<close>

definition is_space :: "char \<Rightarrow> bool" where
  "is_space c =
     (let n = (of_char c :: nat)
      in (9 \<le> n \<and> n \<le> 13) \<or> (28 \<le> n \<and> n \<le> 32) \<or> n = 133 \<or> n = 160)"

definition strip :: "string \<Rightarrow> string" where
  "strip s = rev (dropWhile is_space (rev (dropWhile is_space s)))"

text \<open>\<open>return result if result else None\<close>.\<close>

definition result_or_none :: "(string \<times> json) list \<Rightarrow> (string \<times> json) list option" where
  "result_or_none result = (if result = [] then None else Some result)"

text \<open>
  The part of both extractors before the payload is read: \<open>None\<close> when the frame is
  skipped (not a data line, or the \<open>[DONE]\<close> sentinel), else the text handed to
  \<open>json.loads\<close>.
\<close>

definition data_payload :: "string \<Rightarrow> string option" where
  "data_payload line =
     (let stripped = strip line
      in if \<not> prefix ''data:'' stripped then None
         else let data_str = strip (drop 5 stripped)
              in if data_str = ''[DONE]'' then None else Some data_str)"

text \<open>
  \<open>OpenAICompatibleProvider.extract_usage_from_stream\<close>. The library function
  \<open>json.loads\<close> is the parameter \<open>json_loads\<close>, \<open>None\<close> standing for JSONDecodeError,
  which the function catches.
\<close>

definition openai_usage_fields :: "json \<Rightarrow> py_error + (string \<times> json) list" where
  "openai_usage_fields usage =
     py_bind (py_get usage ''prompt_tokens'' (JInt 0)) (\<lambda>pt.
     py_bind (py_get usage ''completion_tokens'' (JInt 0)) (\<lambda>ct.
     py_bind (py_get usage ''prompt_tokens_details'' (JObj [])) (\<lambda>details.
       let result = AList.update ''output_tokens'' ct (AList.update ''input_tokens'' pt [])
       in if truthy details
          then py_bind (py_get details ''cached_tokens'' (JInt 0)) (\<lambda>cached.
                 Inr (AList.update ''cache_read_tokens'' cached result))
          else Inr result)))"

definition openai_extract_usage_from_stream ::
  "(string \<Rightarrow> json option) \<Rightarrow> string \<Rightarrow> string option \<Rightarrow>
   py_error + (string \<times> json) list option" where
  "openai_extract_usage_from_stream json_loads line event_type =
     (case data_payload line of
        None \<Rightarrow> Inr None
      | Some data_str \<Rightarrow>
          (case json_loads data_str of
             None \<Rightarrow> Inr None
           | Some data \<Rightarrow>
               py_bind (py_get data ''usage'' (JObj [])) (\<lambda>usage.
               py_bind (if truthy usage then openai_usage_fields usage else Inr []) (\<lambda>result.
               py_bind (py_get data ''choices'' (JArr [])) (\<lambda>choices.
                 if truthy choices
                 then py_bind (py_item0 choices) (\<lambda>choice.
                      py_bind (py_get choice ''finish_reason'' JNull) (\<lambda>finish_reason.
                        if truthy finish_reason
                        then Inr (result_or_none (AList.update ''stop_reason'' finish_reason result))
                        else Inr (result_or_none result)))
                 else Inr (result_or_none result))))))"

text \<open>\<open>AnthropicProvider.extract_usage_from_stream\<close>, with the same parameter.\<close>

definition anthropic_message_start :: "json \<Rightarrow> py_error + (string \<times> json) list" where
  "anthropic_message_start data =
     py_bind (py_get data ''message'' (JObj [])) (\<lambda>message.
     py_bind (py_get message ''usage'' (JObj [])) (\<lambda>msg_usage.
       if truthy msg_usage
       then py_bind (py_get msg_usage ''input_tokens'' (JInt 0)) (\<lambda>it.
            py_bind (py_get msg_usage ''cache_read_input_tokens'' (JInt 0)) (\<lambda>cr.
            py_bind (py_get msg_usage ''cache_creation_input_tokens'' (JInt 0)) (\<lambda>cw.
              Inr (AList.update ''cache_write_tokens'' cw
                    (AList.update ''cache_read_tokens'' cr
                      (AList.update ''input_tokens'' it []))))))
       else Inr []))"

definition anthropic_message_delta :: "json \<Rightarrow> py_error + (string \<times> json) list" where
  "anthropic_message_delta data =
     py_bind (py_get data ''usage'' (JObj [])) (\<lambda>delta_usage.
     py_bind (py_get data ''delta'' (JObj [])) (\<lambda>delta.
     py_bind (py_get delta_usage ''output_tokens'' JNull) (\<lambda>ot.
     py_bind (if ot \<noteq> JNull
              then py_bind (py_item delta_usage ''output_tokens'') (\<lambda>v.
                     Inr (AList.update ''output_tokens'' v []))
              else Inr []) (\<lambda>result.
     py_bind (py_get delta ''stop_reason'' JNull) (\<lambda>sr.
       if truthy sr
       then py_bind (py_item delta ''stop_reason'') (\<lambda>v.
              Inr (AList.update ''stop_reason'' v result))
       else Inr result)))))"

definition anthropic_extract_usage_from_stream ::
  "(string \<Rightarrow> json option) \<Rightarrow> string \<Rightarrow> string option \<Rightarrow>
   py_error + (string \<times> json) list option" where
  "anthropic_extract_usage_from_stream json_loads line event_type =
     (case data_payload line of
        None \<Rightarrow> Inr None
      | Some data_str \<Rightarrow>
          (case json_loads data_str of
             None \<Rightarrow> Inr None
           | Some data \<Rightarrow>
               py_bind (if event_type = Some ''message_start'' then anthropic_message_start data
                        else if event_type = Some ''message_delta'' then anthropic_message_delta data
                        else Inr []) (\<lambda>result.
                 Inr (result_or_none result))))"

text \<open>
  A reader standing in for \<open>json.loads\<close> on the payloads of the worked examples: the JSON
  text \<open>1\<close> is the integer 1, \<open>{"usage":{"prompt_tokens":7,"completion_tokens":2}}\<close> is
  the dict it denotes, and \<open>not json\<close> does not parse.
\<close>

definition example_json_loads :: "string \<Rightarrow> json option" where
  "example_json_loads s =
     (if s = ''1'' then Some (JInt 1)
      else if s = ''{\"usage\":{\"prompt_tokens\":7,\"completion_tokens\":2}}''
      then Some (JObj [(''usage'',
                        JObj [(''prompt_tokens'', JInt 7), (''completion_tokens'', JInt 2)])])
      else None)"

section \<open>Verified properties\<close>

subsection \<open>Python floats\<close>

lemma fl_0: "fl 0 = 0"
  by (simp add: fl_def)

lemma rhe_of_int: "round_half_even (of_int n) = n"
  by (simp add: round_half_even_def)

lemma rhe_cases: "round_half_even x = \<lfloor>x\<rfloor> \<or> round_half_even x = \<lfloor>x\<rfloor> + 1"
  by (simp add: round_half_even_def Let_def)

lemma rhe_mono: "x \<le> y \<Longrightarrow> round_half_even x \<le> round_half_even y"
proof -
  assume xy: "x \<le> y"
  then have f: "\<lfloor>x\<rfloor> \<le> \<lfloor>y\<rfloor>" by (rule floor_mono)
  show ?thesis
  proof (cases "\<lfloor>x\<rfloor> = \<lfloor>y\<rfloor>")
    case True
    with xy show ?thesis by (auto simp: round_half_even_def Let_def)
  next
    case False
    with f have "\<lfloor>x\<rfloor> + 1 \<le> \<lfloor>y\<rfloor>" by simp
    moreover have "round_half_even x \<le> \<lfloor>x\<rfloor> + 1" using rhe_cases[of x] by auto
    moreover have "\<lfloor>y\<rfloor> \<le> round_half_even y" using rhe_cases[of y] by auto
    ultimately show ?thesis by linarith
  qed
qed

lemma rhe_0: "round_half_even 0 = 0"
  using rhe_of_int[of 0] by simp

lemma rhe_nonpos: "x \<le> 0 \<Longrightarrow> round_half_even x \<le> 0"
  using rhe_mono[of x 0] by (simp only: rhe_0)

lemma rhe_nonneg: "0 \<le> x \<Longrightarrow> 0 \<le> round_half_even x"
  using rhe_mono[of 0 x] by (simp only: rhe_0)

lemma powi_nonneg_eq: "0 \<le> k \<Longrightarrow> (2::rat) powi k = of_int (2 ^ nat k)"
  by (simp add: power_int_def)

lemma powi_pos: "0 < (2::rat) powi k"
  by simp

lemma powi_mono: "a \<le> b \<Longrightarrow> (2::rat) powi a \<le> 2 powi b"
  by (rule power_int_increasing) simp_all

lemma powi_less_cancel: "(2::rat) powi a < 2 powi b \<Longrightarrow> a < b"
proof (rule ccontr)
  assume l: "(2::rat) powi a < 2 powi b" and "\<not> a < b"
  then have "b \<le> a" by simp
  then have "(2::rat) powi b \<le> 2 powi a" by (rule powi_mono)
  with l show False by simp
qed

lemma frac_bound_upper:
  fixes p q A B :: rat
  assumes "0 < p" "p < A" "0 < B" "B \<le> q"
  shows "p / q < A / B"
proof -
  have q: "0 < q" using assms by linarith
  have "p * B \<le> p * q" using assms by (intro mult_left_mono) simp_all
  also have "\<dots> < A * q" using assms q by (intro mult_strict_right_mono) simp_all
  finally show ?thesis using q assms by (simp add: divide_less_eq less_divide_eq field_simps)
qed

lemma frac_bound_lower:
  fixes p q A B :: rat
  assumes "0 < A" "A \<le> p" "0 < q" "q < B"
  shows "A / B < p / q"
proof -
  have B: "0 < B" using assms by linarith
  have "A * q < A * B" using assms by (intro mult_strict_left_mono) simp_all
  also have "\<dots> \<le> p * B" using assms B by (intro mult_right_mono) simp_all
  finally show ?thesis using B assms by (simp add: divide_less_eq less_divide_eq field_simps)
qed

lemma bitlen_powi_bounds:
  assumes "0 < p"
  shows "(2::rat) powi (bitlen p - 1) \<le> of_int p" and "of_int p < (2::rat) powi (bitlen p)"
proof -
  from bitlen_bounds[OF assms] have b: "2 ^ nat (bitlen p - 1) \<le> p" "p < 2 ^ nat (bitlen p)"
    by auto
  have ge1: "1 \<le> bitlen p"
    using bitlen_eq_zero_iff[of p] bitlen_nonneg[of p] assms by linarith
  have "(2::rat) powi (bitlen p - 1) = of_int (2 ^ nat (bitlen p - 1))"
    using ge1 by (intro powi_nonneg_eq) simp
  also have "\<dots> \<le> of_int p" using b(1) by (simp only: of_int_le_iff)
  finally show "(2::rat) powi (bitlen p - 1) \<le> of_int p" .
  have "(of_int p :: rat) < of_int (2 ^ nat (bitlen p))" using b(2) by (simp only: of_int_less_iff)
  also have "\<dots> = (2::rat) powi (bitlen p)"
    using ge1 by (intro powi_nonneg_eq[symmetric]) simp
  finally show "of_int p < (2::rat) powi (bitlen p)" .
qed

lemma ilog2_bounds:
  assumes "0 < x"
  shows "2 powi (ilog2 x) \<le> x" and "x < 2 powi (ilog2 x + 1)"
proof -
  obtain p q where pq: "quotient_of x = (p, q)" by (cases "quotient_of x")
  have q: "0 < q" using quotient_of_denom_pos[OF pq] .
  have x: "x = of_int p / of_int q" using quotient_of_div[OF pq] .
  have p: "0 < p" using assms x q by (simp add: zero_less_divide_iff)
  define k where "k = bitlen p - bitlen q"
  note P = bitlen_powi_bounds[OF p] and Q = bitlen_powi_bounds[OF q]
  have "x < 2 powi (bitlen p) / 2 powi (bitlen q - 1)"
    unfolding x using p q P Q by (intro frac_bound_upper) simp_all
  also have "\<dots> = 2 powi (k + 1)"
    unfolding k_def by (simp add: power_int_diff[symmetric] algebra_simps)
  finally have up: "x < 2 powi (k + 1)" .
  have "2 powi (bitlen p - 1) / 2 powi (bitlen q) < x"
    unfolding x using p q P Q by (intro frac_bound_lower) simp_all
  moreover have "2 powi (bitlen p - 1) / 2 powi (bitlen q) = (2::rat) powi (k - 1)"
    unfolding k_def by (simp add: power_int_diff[symmetric] algebra_simps)
  ultimately have lo: "2 powi (k - 1) < x" by simp
  have il: "ilog2 x = (if 2 powi k \<le> x then k else k - 1)"
    using assms pq by (simp add: ilog2_def k_def abs_of_pos)
  show "2 powi (ilog2 x) \<le> x" using lo by (auto simp: il)
  show "x < 2 powi (ilog2 x + 1)" using up by (auto simp: il)
qed

lemma ilog2_abs: "ilog2 \<bar>x\<bar> = ilog2 x"
  by (simp add: ilog2_def)

lemma ilog2_mono:
  assumes "0 < x" "x \<le> y"
  shows "ilog2 x \<le> ilog2 y"
proof -
  have "2 powi (ilog2 x) \<le> x" using ilog2_bounds(1)[OF assms(1)] .
  also have "\<dots> \<le> y" by fact
  also have "\<dots> < 2 powi (ilog2 y + 1)" using ilog2_bounds(2)[of y] assms by simp
  finally have "ilog2 x < ilog2 y + 1" by (rule powi_less_cancel)
  then show ?thesis by simp
qed

lemma powi_quot: "q \<le> n \<Longrightarrow> (2::rat) powi n / 2 powi q = of_int (2 ^ nat (n - q))"
proof -
  assume "q \<le> n"
  then have "(2::rat) powi (n - q) = of_int (2 ^ nat (n - q))" by (intro powi_nonneg_eq) simp
  then show ?thesis by (simp add: power_int_diff)
qed

lemma scaled_le:
  assumes "x \<le> 2 powi n" "q \<le> n"
  shows "of_int (round_half_even (x / 2 powi q)) * 2 powi q \<le> (2::rat) powi n"
proof -
  have "x / 2 powi q \<le> 2 powi n / 2 powi q" using assms(1) by (simp add: divide_right_mono)
  then have "round_half_even (x / 2 powi q) \<le> round_half_even (2 powi n / 2 powi q)"
    by (rule rhe_mono)
  also have "\<dots> = 2 ^ nat (n - q)" unfolding powi_quot[OF assms(2)] by (rule rhe_of_int)
  finally have "(of_int (round_half_even (x / 2 powi q)) :: rat) \<le> of_int (2 ^ nat (n - q))"
    by (simp only: of_int_le_iff)
  also have "\<dots> = 2 powi n / 2 powi q" by (rule powi_quot[OF assms(2), symmetric])
  finally show ?thesis by (simp add: pos_le_divide_eq)
qed

lemma scaled_ge:
  assumes "2 powi n \<le> x" "q \<le> n"
  shows "(2::rat) powi n \<le> of_int (round_half_even (x / 2 powi q)) * 2 powi q"
proof -
  have "2 powi n / 2 powi q \<le> x / 2 powi q" using assms(1) by (simp add: divide_right_mono)
  then have "round_half_even (2 powi n / 2 powi q) \<le> round_half_even (x / 2 powi q)"
    by (rule rhe_mono)
  moreover have "round_half_even (2 powi n / 2 powi q) = 2 ^ nat (n - q)"
    unfolding powi_quot[OF assms(2)] by (rule rhe_of_int)
  ultimately have "(of_int (2 ^ nat (n - q)) :: rat) \<le> of_int (round_half_even (x / 2 powi q))"
    by (simp only: of_int_le_iff)
  then have "(2::rat) powi n / 2 powi q \<le> of_int (round_half_even (x / 2 powi q))"
    by (simp only: powi_quot[OF assms(2)])
  then show ?thesis by (simp add: pos_divide_le_eq)
qed

lemma fl_nonzero:
  "x \<noteq> 0 \<Longrightarrow>
   fl x = of_int (round_half_even (x / 2 powi (max (ilog2 x - 52) (- 1074)))) *
          2 powi (max (ilog2 x - 52) (- 1074))"
  by (simp add: fl_def Let_def)

lemma fl_nonpos: "x \<le> 0 \<Longrightarrow> fl x \<le> 0"
proof (cases "x = 0")
  case True
  then show ?thesis by (simp add: fl_0)
next
  case False
  assume "x \<le> 0"
  then have "x / 2 powi (max (ilog2 x - 52) (- 1074)) \<le> 0" by (simp add: divide_le_0_iff)
  then have "round_half_even (x / 2 powi (max (ilog2 x - 52) (- 1074))) \<le> 0" by (rule rhe_nonpos)
  then have "(of_int (round_half_even (x / 2 powi (max (ilog2 x - 52) (- 1074)))) :: rat) \<le> 0"
    by simp
  then show ?thesis unfolding fl_nonzero[OF False] by (simp add: mult_le_0_iff)
qed

lemma fl_nonneg: "0 \<le> x \<Longrightarrow> 0 \<le> fl x"
proof (cases "x = 0")
  case True
  then show ?thesis by (simp add: fl_0)
next
  case False
  assume "0 \<le> x"
  then have "0 \<le> x / 2 powi (max (ilog2 x - 52) (- 1074))" by simp
  then have "0 \<le> round_half_even (x / 2 powi (max (ilog2 x - 52) (- 1074)))" by (rule rhe_nonneg)
  then have "(0::rat) \<le> of_int (round_half_even (x / 2 powi (max (ilog2 x - 52) (- 1074))))"
    by simp
  then show ?thesis unfolding fl_nonzero[OF False] by simp
qed

lemma fl_mono_pos:
  assumes "0 < x" "x \<le> y"
  shows "fl x \<le> fl y"
proof -
  let ?qx = "max (ilog2 x - 52) (- 1074)"
  let ?qy = "max (ilog2 y - 52) (- 1074)"
  have y: "0 < y" using assms by linarith
  have fx: "fl x = of_int (round_half_even (x / 2 powi ?qx)) * 2 powi ?qx"
    using assms(1) by (intro fl_nonzero) simp
  have fy: "fl y = of_int (round_half_even (y / 2 powi ?qy)) * 2 powi ?qy"
    using y by (intro fl_nonzero) simp
  have e: "ilog2 x \<le> ilog2 y" by (rule ilog2_mono[OF assms])
  show ?thesis
  proof (cases "?qx = ?qy")
    case True
    have "x / 2 powi ?qy \<le> y / 2 powi ?qy" using assms(2) by (simp add: divide_right_mono)
    then have "round_half_even (x / 2 powi ?qy) \<le> round_half_even (y / 2 powi ?qy)"
      by (rule rhe_mono)
    then have "(of_int (round_half_even (x / 2 powi ?qy)) :: rat) \<le>
               of_int (round_half_even (y / 2 powi ?qy))" by (simp only: of_int_le_iff)
    then have "of_int (round_half_even (x / 2 powi ?qy)) * 2 powi ?qy \<le>
               of_int (round_half_even (y / 2 powi ?qy)) * (2::rat) powi ?qy"
      by (intro mult_right_mono) simp_all
    then show ?thesis unfolding fx fy True .
  next
    case False
    with e have lt: "ilog2 x < ilog2 y" and qy: "?qy = ilog2 y - 52" and qq: "?qx \<le> ?qy"
      by (auto simp: max_def split: if_splits)
    have "x < 2 powi (ilog2 x + 1)" by (rule ilog2_bounds(2)[OF assms(1)])
    also have "\<dots> \<le> 2 powi (ilog2 y)" using lt by (intro powi_mono) simp
    finally have xb: "x \<le> 2 powi (ilog2 y)" by simp
    have q1: "?qx \<le> ilog2 y" using qq qy by linarith
    have q2: "?qy \<le> ilog2 y" using qy by linarith
    have "fl x \<le> 2 powi (ilog2 y)" unfolding fx by (rule scaled_le[OF xb q1])
    also have "\<dots> \<le> fl y" unfolding fy by (rule scaled_ge[OF ilog2_bounds(1)[OF y] q2])
    finally show ?thesis .
  qed
qed

lemma fl_exact:
  assumes "\<bar>m\<bar> < 2 ^ 53" "- 1074 \<le> k"
  shows "fl (of_int m * 2 powi k) = of_int m * 2 powi k"
proof (cases "m = 0")
  case True
  then show ?thesis by (simp add: fl_0)
next
  case False
  let ?x = "of_int m * (2::rat) powi k"
  let ?q = "max (ilog2 ?x - 52) (- 1074)"
  have nz: "?x \<noteq> 0" using False by simp
  have pos: "0 < \<bar>?x\<bar>" using nz by simp
  have "2 powi (ilog2 ?x) \<le> \<bar>?x\<bar>" using ilog2_bounds(1)[OF pos] by (simp only: ilog2_abs)
  also have "\<bar>?x\<bar> = of_int \<bar>m\<bar> * 2 powi k" by (simp add: abs_mult)
  also have "\<dots> < of_int (2 ^ 53) * 2 powi k"
    using assms(1) by (intro mult_strict_right_mono) (simp_all only: of_int_less_iff powi_pos)
  also have "\<dots> = 2 powi (53 + k)" by (simp add: power_int_add)
  finally have "ilog2 ?x < 53 + k" by (rule powi_less_cancel)
  with assms(2) have qk: "?q \<le> k" by simp
  have "?x / 2 powi ?q = of_int m * (2 powi k / 2 powi ?q)" by simp
  also have "\<dots> = of_int (m * 2 ^ nat (k - ?q))" unfolding powi_quot[OF qk] by simp
  finally have sc: "?x / 2 powi ?q = of_int (m * 2 ^ nat (k - ?q))" .
  have "fl ?x = of_int (round_half_even (?x / 2 powi ?q)) * 2 powi ?q" by (rule fl_nonzero[OF nz])
  also have "\<dots> = of_int (m * 2 ^ nat (k - ?q)) * 2 powi ?q" unfolding sc rhe_of_int ..
  also have "\<dots> = ?x / 2 powi ?q * 2 powi ?q" unfolding sc ..
  also have "\<dots> = ?x" by simp
  finally show ?thesis .
qed

lemma fl_of_int: "\<bar>n\<bar> < 2 ^ 53 \<Longrightarrow> fl (of_int n) = of_int n"
  using fl_exact[of n 0] by simp

text \<open>
  The accuracy of \<open>fl\<close>: the rounding error is at most half the spacing of the doubles at
  the argument, which is a relative error of \<open>2\<^sup>-\<^sup>5\<^sup>3\<close> outside the subnormal range and
  at most \<open>2\<^sup>-\<^sup>1\<^sup>0\<^sup>7\<^sup>5\<close> inside it.
\<close>

lemma rhe_err: "\<bar>of_int (round_half_even y) - y\<bar> \<le> 1/2"
proof -
  have "of_int \<lfloor>y\<rfloor> \<le> y" "y < of_int \<lfloor>y\<rfloor> + 1" by linarith+
  then show ?thesis by (auto simp: round_half_even_def Let_def abs_le_iff)
qed

lemma fl_err_spacing:
  "\<bar>fl x - x\<bar> \<le> 2 powi (max (ilog2 x - 52) (- 1074)) / 2"
proof (cases "x = 0")
  case True
  then show ?thesis by (simp add: fl_0)
next
  case False
  let ?q = "max (ilog2 x - 52) (- 1074)"
  have p: "0 < (2::rat) powi ?q" by (rule powi_pos)
  have "fl x - x = (of_int (round_half_even (x / 2 powi ?q)) - x / 2 powi ?q) * 2 powi ?q"
    unfolding fl_nonzero[OF False] using p by (simp add: algebra_simps)
  then have "\<bar>fl x - x\<bar> = \<bar>of_int (round_half_even (x / 2 powi ?q)) - x / 2 powi ?q\<bar> * 2 powi ?q"
    using p by (simp add: abs_mult)
  also have "\<dots> \<le> 1/2 * 2 powi ?q"
    using p by (intro mult_right_mono rhe_err) simp
  finally show ?thesis by simp
qed

lemma fl_err: "\<bar>fl x - x\<bar> \<le> \<bar>x\<bar> / 2 ^ 53 + 2 powi (- 1075)"
proof (cases "x = 0")
  case True
  then show ?thesis by (simp add: fl_0)
next
  case False
  then have pos: "0 < \<bar>x\<bar>" by simp
  have b: "2 powi (ilog2 x) \<le> \<bar>x\<bar>" using ilog2_bounds(1)[OF pos] by (simp only: ilog2_abs)
  show ?thesis
  proof (cases "ilog2 x - 52 \<le> - 1074")
    case True
    then have "max (ilog2 x - 52) (- 1074) = - 1074" by simp
    with fl_err_spacing[of x] have "\<bar>fl x - x\<bar> \<le> 2 powi (- 1074) / 2" by simp
    also have "(2::rat) powi (- 1074) / 2 = 2 powi (- 1075)"
      using power_int_add[of "2::rat" "- 1075" 1] by simp
    finally have "\<bar>fl x - x\<bar> \<le> 2 powi (- 1075)" .
    moreover have "0 \<le> \<bar>x\<bar> / 2 ^ 53" by simp
    ultimately show ?thesis by linarith
  next
    case False
    then have "max (ilog2 x - 52) (- 1074) = ilog2 x - 52" by simp
    with fl_err_spacing[of x] have "\<bar>fl x - x\<bar> \<le> 2 powi (ilog2 x - 52) / 2" by simp
    also have "(2::rat) powi (ilog2 x - 52) / 2 = 2 powi (ilog2 x) / 2 ^ 53"
      by (simp add: power_int_diff)
    also have "\<dots> \<le> \<bar>x\<bar> / 2 ^ 53" using b by (simp add: divide_right_mono)
    finally show ?thesis using powi_pos[of "- 1075"] by linarith
  qed
qed





subsection \<open>Pricing lookup\<close>

lemma dict_index_key:
  "k \<in> fst ` set tbl \<Longrightarrow> \<exists>r. map_of tbl k = Some r \<and> dict_index tbl k = Inr r"
  by (cases "map_of tbl k") (auto simp: dict_index_def map_of_eq_None_iff)

lemma scan_prefixes_find:
  "scan_prefixes tbl ps m =
     (case find (\<lambda>p. sublist p m) ps of
        None \<Rightarrow> Inr (mk_rates 0 0 0 0)
      | Some p \<Rightarrow> dict_index tbl p)"
  by (induction ps) auto

lemma set_keys_longest_first: "set (keys_longest_first tbl) = fst ` set tbl"
  by (simp add: keys_longest_first_def)

lemma sorted_keys_longest_first:
  "sorted (map (\<lambda>k. - int (length k)) (keys_longest_first tbl))"
  by (simp add: keys_longest_first_def)

lemma keys_longest_first_nth:
  assumes "i < j" "j < length (keys_longest_first tbl)"
  shows "length (keys_longest_first tbl ! j) \<le> length (keys_longest_first tbl ! i)"
proof -
  let ?ks = "keys_longest_first tbl"
  have "map (\<lambda>k. - int (length k)) ?ks ! i \<le> map (\<lambda>k. - int (length k)) ?ks ! j"
    using sorted_keys_longest_first assms by (intro sorted_nth_mono) auto
  with assms show ?thesis by simp
qed

lemma find_sorted_least:
  "sorted (map f xs) \<Longrightarrow> find P xs = Some k \<Longrightarrow> k' \<in> set xs \<Longrightarrow> P k' \<Longrightarrow> f k \<le> f k'"
  by (induction xs) (auto split: if_splits)

lemma find_Some_props: "find P xs = Some k \<Longrightarrow> k \<in> set xs \<and> P k"
  by (induction xs) (auto split: if_splits)

lemma pricing_find:
  "get_model_pricing tbl model =
     (case find (\<lambda>k. sublist k (lower model)) (keys_longest_first tbl) of
        None \<Rightarrow> Inr (mk_rates 0 0 0 0)
      | Some k \<Rightarrow> dict_index tbl k)"
  by (simp add: get_model_pricing_def scan_prefixes_find)

lemma pricing_no_match:
  assumes "\<forall>k \<in> fst ` set tbl. \<not> sublist k (lower model)"
  shows "get_model_pricing tbl model = Inr (mk_rates 0 0 0 0)"
proof -
  have "find (\<lambda>k. sublist k (lower model)) (keys_longest_first tbl) = None"
    using assms by (simp add: find_None_iff set_keys_longest_first)
  then show ?thesis by (simp add: pricing_find)
qed

lemma pricing_match:
  assumes "k \<in> fst ` set tbl" "sublist k (lower model)"
  shows "\<exists>k' r. k' \<in> fst ` set tbl \<and> sublist k' (lower model) \<and>
           (\<forall>k'' \<in> fst ` set tbl. sublist k'' (lower model) \<longrightarrow> length k'' \<le> length k') \<and>
           map_of tbl k' = Some r \<and> get_model_pricing tbl model = Inr r"
proof -
  let ?P = "\<lambda>k. sublist k (lower model)"
  let ?ks = "keys_longest_first tbl"
  from assms have "find ?P ?ks \<noteq> None"
    by (auto simp: find_None_iff set_keys_longest_first)
  then obtain k' where f: "find ?P ?ks = Some k'" by auto
  then have in_k: "k' \<in> fst ` set tbl" and occ: "?P k'"
    using find_Some_props[OF f] by (auto simp: set_keys_longest_first)
  have longest: "length k'' \<le> length k'" if "k'' \<in> fst ` set tbl" "?P k''" for k''
  proof -
    have "- int (length k') \<le> - int (length k'')"
      using find_sorted_least[OF sorted_keys_longest_first f, of k''] that
      by (simp add: set_keys_longest_first)
    then show ?thesis by simp
  qed
  from dict_index_key[OF in_k] obtain r where r: "map_of tbl k' = Some r" "dict_index tbl k' = Inr r"
    by blast
  have "get_model_pricing tbl model = Inr r" by (simp add: pricing_find f r)
  with in_k occ longest r show ?thesis by blast
qed

lemma pricing_total: "\<exists>r. get_model_pricing tbl model = Inr r"
proof (cases "\<exists>k \<in> fst ` set tbl. sublist k (lower model)")
  case True
  then obtain k where "k \<in> fst ` set tbl" "sublist k (lower model)" by blast
  from pricing_match[OF this] show ?thesis by blast
next
  case False
  then show ?thesis using pricing_no_match[of tbl model] by blast
qed

lemma pricing_two_keys:
  assumes "{k \<in> fst ` set tbl. sublist k (lower model)} = {k1, k2}" "length k2 < length k1"
  shows "\<exists>r. map_of tbl k1 = Some r \<and> get_model_pricing tbl model = Inr r"
proof -
  have k1: "k1 \<in> fst ` set tbl" "sublist k1 (lower model)" using assms(1) by auto
  from pricing_match[OF k1] obtain k' r where
    k': "k' \<in> fst ` set tbl" "sublist k' (lower model)"
        "\<forall>k'' \<in> fst ` set tbl. sublist k'' (lower model) \<longrightarrow> length k'' \<le> length k'"
        "map_of tbl k' = Some r" "get_model_pricing tbl model = Inr r" by blast
  from k'(1,2) assms(1) have "k' = k1 \<or> k' = k2" by auto
  moreover have "length k1 \<le> length k'" using k'(3) k1 by blast
  ultimately have "k' = k1" using assms(2) by auto
  with k' show ?thesis by blast
qed

text \<open>
  C2. The pricing lookup scans the table's keys longest first (the scanned list holds exactly
  the table's keys, never a longer key after a shorter one) and returns the rates of the first
  key contained anywhere in the lower-cased model name, so the key whose rates are returned is
  one of maximal length among the keys that occur; when exactly two keys occur and one is
  longer, the longer key's rates are returned; when no key occurs the result is the all-zero
  quadruple; and the lookup never raises.
\<close>

theorem get_model_pricing_longest_match:
  "set (keys_longest_first tbl) = fst ` set tbl \<and>
   (\<forall>i j. i < j \<and> j < length (keys_longest_first tbl) \<longrightarrow>
      length (keys_longest_first tbl ! j) \<le> length (keys_longest_first tbl ! i)) \<and>
   get_model_pricing tbl model =
     (case find (\<lambda>k. sublist k (lower model)) (keys_longest_first tbl) of
        None \<Rightarrow> Inr (mk_rates 0 0 0 0)
      | Some k \<Rightarrow> dict_index tbl k) \<and>
   (\<forall>k \<in> fst ` set tbl. sublist k (lower model) \<longrightarrow>
      (\<exists>k' r. k' \<in> fst ` set tbl \<and> sublist k' (lower model) \<and>
         (\<forall>k'' \<in> fst ` set tbl. sublist k'' (lower model) \<longrightarrow> length k'' \<le> length k') \<and>
         map_of tbl k' = Some r \<and> get_model_pricing tbl model = Inr r)) \<and>
   (\<forall>k1 k2. {k \<in> fst ` set tbl. sublist k (lower model)} = {k1, k2} \<and> length k2 < length k1 \<longrightarrow>
      (\<exists>r. map_of tbl k1 = Some r \<and> get_model_pricing tbl model = Inr r)) \<and>
   ((\<forall>k \<in> fst ` set tbl. \<not> sublist k (lower model)) \<longrightarrow>
      get_model_pricing tbl model = Inr (mk_rates 0 0 0 0)) \<and>
   (\<exists>r. get_model_pricing tbl model = Inr r)"
proof (intro conjI allI ballI impI)
  show "set (keys_longest_first tbl) = fst ` set tbl" by (rule set_keys_longest_first)
next
  fix i j assume "i < j \<and> j < length (keys_longest_first tbl)"
  then show "length (keys_longest_first tbl ! j) \<le> length (keys_longest_first tbl ! i)"
    by (simp add: keys_longest_first_nth)
next
  show "get_model_pricing tbl model =
     (case find (\<lambda>k. sublist k (lower model)) (keys_longest_first tbl) of
        None \<Rightarrow> Inr (mk_rates 0 0 0 0)
      | Some k \<Rightarrow> dict_index tbl k)" by (rule pricing_find)
next
  fix k assume "k \<in> fst ` set tbl" "sublist k (lower model)"
  then show "\<exists>k' r. k' \<in> fst ` set tbl \<and> sublist k' (lower model) \<and>
         (\<forall>k'' \<in> fst ` set tbl. sublist k'' (lower model) \<longrightarrow> length k'' \<le> length k') \<and>
         map_of tbl k' = Some r \<and> get_model_pricing tbl model = Inr r"
    by (rule pricing_match)
next
  fix k1 k2
  assume "{k \<in> fst ` set tbl. sublist k (lower model)} = {k1, k2} \<and> length k2 < length k1"
  then have a: "{k \<in> fst ` set tbl. sublist k (lower model)} = {k1, k2}"
    and b: "length k2 < length k1" by simp_all
  show "\<exists>r. map_of tbl k1 = Some r \<and> get_model_pricing tbl model = Inr r"
    by (rule pricing_two_keys[OF a b])
next
  assume "\<forall>k \<in> fst ` set tbl. \<not> sublist k (lower model)"
  then show "get_model_pricing tbl model = Inr (mk_rates 0 0 0 0)" by (rule pricing_no_match)
next
  show "\<exists>r. get_model_pricing tbl model = Inr r" by (rule pricing_total)
qed

theorem get_model_pricing_longest_match_witness:
  "''gpt-4'' \<in> fst ` set openai_COST_TABLE \<and> sublist ''gpt-4'' (lower ''x/GPT-4o-Mini-2024'') \<and>
   \<not> prefix ''gpt-4o-mini'' (lower ''x/GPT-4o-Mini-2024'') \<and>
   get_model_pricing openai_COST_TABLE ''x/GPT-4o-Mini-2024'' = Inr (mk_rates (3/20) (3/5) (3/40) 0) \<and>
   {k \<in> fst ` set anthropic_COST_TABLE. sublist k (lower ''a/Claude-Opus-4-1'')} =
     {''claude-opus-4-1'', ''claude-opus-4''} \<and>
   length ''claude-opus-4'' < length ''claude-opus-4-1'' \<and>
   get_model_pricing anthropic_COST_TABLE ''a/Claude-Opus-4-1'' = Inr (mk_rates 15 75 (3/2) (75/4)) \<and>
   filter (\<lambda>k. sublist k (lower ''gemini-pro'')) (map fst anthropic_COST_TABLE) = [] \<and>
   get_model_pricing anthropic_COST_TABLE ''gemini-pro'' = Inr (mk_rates 0 0 0 0)"
proof -
  have a1: "''gpt-4'' \<in> fst ` set openai_COST_TABLE" by code_simp
  have a2: "sublist ''gpt-4'' (lower ''x/GPT-4o-Mini-2024'')" by code_simp
  have a3: "\<not> prefix ''gpt-4o-mini'' (lower ''x/GPT-4o-Mini-2024'')" by code_simp
  have a4: "get_model_pricing openai_COST_TABLE ''x/GPT-4o-Mini-2024'' =
      Inr (mk_rates (3/20) (3/5) (3/40) 0)" by code_simp
  have b1: "{k \<in> fst ` set anthropic_COST_TABLE. sublist k (lower ''a/Claude-Opus-4-1'')} =
     {''claude-opus-4-1'', ''claude-opus-4''}" by code_simp
  have b2: "length ''claude-opus-4'' < length ''claude-opus-4-1''" by simp
  have b3: "map_of anthropic_COST_TABLE ''claude-opus-4-1'' = Some (mk_rates 15 75 (3/2) (75/4))"
    by code_simp
  note TA = get_model_pricing_longest_match [of anthropic_COST_TABLE "''a/Claude-Opus-4-1''"]
  have "\<exists>r. map_of anthropic_COST_TABLE ''claude-opus-4-1'' = Some r \<and>
          get_model_pricing anthropic_COST_TABLE ''a/Claude-Opus-4-1'' = Inr r"
    by (rule TA [THEN conjunct2, THEN conjunct2, THEN conjunct2, THEN conjunct2, THEN conjunct1,
          rule_format, OF conjI [OF b1 b2]])
  then obtain r where r: "map_of anthropic_COST_TABLE ''claude-opus-4-1'' = Some r"
      "get_model_pricing anthropic_COST_TABLE ''a/Claude-Opus-4-1'' = Inr r"
    by (elim exE conjE)
  from r(1) have "r = mk_rates 15 75 (3/2) (75/4)" unfolding b3 by (rule option.inject [THEN iffD1, symmetric])
  with r(2) have b4: "get_model_pricing anthropic_COST_TABLE ''a/Claude-Opus-4-1'' =
      Inr (mk_rates 15 75 (3/2) (75/4))" by (rule subst [where P = "\<lambda>x. _ = Inr x", rotated])
  have c1: "\<forall>k \<in> fst ` set anthropic_COST_TABLE. \<not> sublist k (lower ''gemini-pro'')"
    by code_simp
  note TG = get_model_pricing_longest_match [of anthropic_COST_TABLE "''gemini-pro''"]
  have c2: "get_model_pricing anthropic_COST_TABLE ''gemini-pro'' = Inr (mk_rates 0 0 0 0)"
    by (rule TG [THEN conjunct2, THEN conjunct2, THEN conjunct2, THEN conjunct2, THEN conjunct2,
          THEN conjunct1, THEN mp, OF c1])
  have c1': "filter (\<lambda>k. sublist k (lower ''gemini-pro'')) (map fst anthropic_COST_TABLE) = []"
    by code_simp
  show ?thesis by (intro conjI a1 a2 a3 a4 b1 b2 b4 c1' c2)
qed

subsection \<open>Cost calculation\<close>








subsection \<open>Session status\<close>

lemma fold_last_index:
  "a \<le> b \<Longrightarrow>
   (let r = fold (\<lambda>i idx. if P i then i else idx) [a..<b] z
    in (r = z \<and> (\<forall>i. a \<le> i \<and> i < b \<longrightarrow> \<not> P i)) \<or>
       (a \<le> r \<and> r < b \<and> P r \<and> (\<forall>i. r < i \<and> i < b \<longrightarrow> \<not> P i)))"
proof (induction b)
  case 0
  then show ?case by simp
next
  case (Suc b)
  show ?case
  proof (cases "a \<le> b")
    case True
    with Suc.IH have IH: "let r = fold (\<lambda>i idx. if P i then i else idx) [a..<b] z
      in (r = z \<and> (\<forall>i. a \<le> i \<and> i < b \<longrightarrow> \<not> P i)) \<or>
         (a \<le> r \<and> r < b \<and> P r \<and> (\<forall>i. r < i \<and> i < b \<longrightarrow> \<not> P i))" by simp
    show ?thesis
    proof (cases "P b")
      case True
      with \<open>a \<le> b\<close> show ?thesis by (auto simp: Let_def)
    next
      case False
      with \<open>a \<le> b\<close> IH show ?thesis
        by (auto simp: Let_def less_Suc_eq)
    qed
  next
    case False
    with Suc.prems have "a = Suc b" by simp
    then show ?thesis by auto
  qed
qed

lemma last_reset_idx_char:
  assumes "rows \<noteq> []"
  shows "(last_reset_idx rows = 0 \<and> (\<forall>i. 1 \<le> i \<and> i < length rows \<longrightarrow> \<not> is_reset rows i)) \<or>
         (1 \<le> last_reset_idx rows \<and> last_reset_idx rows < length rows \<and>
          is_reset rows (last_reset_idx rows) \<and>
          (\<forall>i. last_reset_idx rows < i \<and> i < length rows \<longrightarrow> \<not> is_reset rows i))"
proof -
  from assms have "1 \<le> length rows" by (cases rows) auto
  from fold_last_index[OF this, of "is_reset rows" 0]
  show ?thesis unfolding last_reset_idx_def Let_def by simp
qed

lemma last_reset_idx_less: "rows \<noteq> [] \<Longrightarrow> last_reset_idx rows < length rows"
  using last_reset_idx_char[of rows] by (cases rows) auto

lemma session_rows_nonempty: "rows \<noteq> [] \<Longrightarrow> session_rows rows \<noteq> []"
  using last_reset_idx_less[of rows] by (simp add: session_rows_def)

lemma last_session_rows: "rows \<noteq> [] \<Longrightarrow> last (session_rows rows) = last rows"
  using last_reset_idx_less[of rows] by (simp add: session_rows_def)

lemma length_last_5: "length (last_5 s) = min 5 (length s)"
  by (auto simp: last_5_def)

lemma float_of_int_pos: "1 \<le> n \<Longrightarrow> 1 \<le> float_of_int n"
proof -
  assume n: "1 \<le> n"
  have "fl 1 \<le> fl (of_int n)" using n by (intro fl_mono_pos) simp_all
  moreover have "fl 1 = 1" using fl_of_int[of 1] by simp
  ultimately show ?thesis by (simp add: float_of_int_def)
qed

lemma avg_cost_5_ok:
  "avg_cost_5 py_sum l5 =
     Inr (fl (py_sum (map (\<lambda>r. or0 (estimated_cost_usd r)) l5) /
              float_of_int (int (max (length l5) 1))))"
proof -
  have "1 \<le> float_of_int (int (max (length l5) 1))" by (rule float_of_int_pos) simp
  then have "float_of_int (int (max (length l5) 1)) \<noteq> 0" by linarith
  then show ?thesis by (simp add: avg_cost_5_def float_truediv_def fdiv_def)
qed

lemma sum_list_add_int:
  "(\<Sum>r \<leftarrow> xs. f r + g r) = (\<Sum>r \<leftarrow> xs. f r) + (\<Sum>r \<leftarrow> xs. (g r :: int))"
  by (induction xs) auto

lemma cache_write_pct_ok:
  "cache_write_pct l5 =
     Inr (fl (of_int (\<Sum>r \<leftarrow> l5. or0 (cache_write_tokens r)) /
              of_int (max 1 ((\<Sum>r \<leftarrow> l5. or0 (cache_read_tokens r)) +
                             (\<Sum>r \<leftarrow> l5. or0 (cache_write_tokens r))))))"
proof -
  have "max ((\<Sum>r \<leftarrow> l5. or0 (cache_read_tokens r) + or0 (cache_write_tokens r))) 1 \<noteq> (0::int)"
    by linarith
  then show ?thesis
    by (simp add: cache_write_pct_def int_truediv_def Let_def sum_list_add_int max.commute)
qed

lemma query_session_status_nonempty:
  assumes "rows \<noteq> []"
  shows "query_session_status py_sum ag rows T =
    Inr \<lparr>agent = ag, current_session_turns = length (session_rows rows),
         current_history_chars = or0 (conversation_history_chars (last rows)),
         last_turn_cost = py_round (or0 (estimated_cost_usd (last rows))) 6,
         avg_cost_last_5 = py_round (fl (py_sum (map (\<lambda>r. or0 (estimated_cost_usd r))
               (last_5 (session_rows rows))) /
             float_of_int (int (max (length (last_5 (session_rows rows))) 1)))) 6,
         cache_write_pct_last_5 = py_round (fl (of_int (\<Sum>r \<leftarrow> last_5 (session_rows rows). or0 (cache_write_tokens r)) /
          of_int (max 1 ((\<Sum>r \<leftarrow> last_5 (session_rows rows). or0 (cache_read_tokens r)) +
                         (\<Sum>r \<leftarrow> last_5 (session_rows rows). or0 (cache_write_tokens r)))))) 4,
         cost_since_last_reset = py_round (total_cost py_sum (session_rows rows)) 6,
         turns_since_last_reset = length (session_rows rows),
         recommendation = recommend (or0 (conversation_history_chars (last rows))) T
           (fl (of_int (\<Sum>r \<leftarrow> last_5 (session_rows rows). or0 (cache_write_tokens r)) /
          of_int (max 1 ((\<Sum>r \<leftarrow> last_5 (session_rows rows). or0 (cache_read_tokens r)) +
                         (\<Sum>r \<leftarrow> last_5 (session_rows rows). or0 (cache_write_tokens r))))))
           (length (last_5 (session_rows rows)))\<rparr>"
  using assms session_rows_nonempty[OF assms] last_session_rows[OF assms]
  by (simp add: query_session_status_def last_item_def Let_def avg_cost_5_ok cache_write_pct_ok)

text \<open>
  The exact comparisons of \<open>is_reset\<close> and \<open>recommend\<close>: the float products
  \<open>prev * 0.5\<close> and \<open>char_limit * 2.5\<close> are computed without rounding.
\<close>

lemma half_exact:
  assumes "\<bar>p\<bar> < 2 ^ 53"
  shows "fmul (float_of_int p) (fl (1/2)) = of_int p * (1/2)"
proof -
  have h: "fl (1/2) = 1/2" using fl_exact[of 1 "-1"] by simp
  have "fl (of_int p * (1/2)) = of_int p * (1/2)" using fl_exact[of p "-1"] assms by simp
  then show ?thesis by (simp add: fmul_def float_of_int_def fl_of_int[OF assms] h)
qed

lemma threshold_exact:
  assumes "\<bar>T\<bar> \<le> 2 ^ 50"
  shows "fmul (float_of_int T) (fl (5/2)) = of_int T * (5/2)"
proof -
  have h: "fl (5/2) = 5/2" using fl_exact[of 5 "-1"] by simp
  have t: "\<bar>T\<bar> < 2 ^ 53" using assms by simp
  have e: "of_int (5 * T) * (2::rat) powi (-1) = of_int T * (5/2)" by simp
  have "\<bar>5 * T\<bar> < 2 ^ 53" using assms by (simp add: abs_mult)
  then have "fl (of_int (5 * T) * 2 powi (-1)) = of_int (5 * T) * 2 powi (-1)"
    by (rule fl_exact) simp
  then have "fl (of_int T * (5/2)) = of_int T * (5/2)" by (simp only: e)
  then show ?thesis by (simp add: fmul_def float_of_int_def fl_of_int[OF t] h)
qed

text \<open>
  The float comparison \<open>cache_write_pct > 0.20\<close> agrees with the comparison of the exact
  quotient as long as the divisor is at most \<open>2\<^sup>5\<^sup>2\<close>.
\<close>

lemma fl_fifth_gap: "fl (1/5) < fl (1/5 + 1 / (5 * 2 ^ 52))"
  by code_simp

lemma ratio_gt_fifth:
  assumes "1 \<le> D" "D \<le> 2 ^ 52"
  shows "(fl (of_int W / of_int D) > fl (1/5)) = (5 * W > D)"
proof
  assume g: "fl (1/5) < fl (of_int W / of_int D)"
  show "D < 5 * W"
  proof (rule ccontr)
    assume "\<not> D < 5 * W"
    then have le: "5 * W \<le> D" by simp
    have D0: "(0::rat) < of_int D" using assms(1) by simp
    have "(of_int (5 * W) :: rat) \<le> of_int D" using le by (simp only: of_int_le_iff)
    then have x: "(of_int W / of_int D :: rat) \<le> 1/5" using D0 by (simp add: pos_divide_le_eq)
    have "fl (of_int W / of_int D) \<le> fl (1/5)"
    proof (cases "0 < (of_int W / of_int D :: rat)")
      case True
      then show ?thesis using x by (rule fl_mono_pos)
    next
      case False
      then have "fl (of_int W / of_int D) \<le> 0" by (intro fl_nonpos) simp
      moreover have "0 \<le> fl (1/5)" by (rule fl_nonneg) simp
      ultimately show ?thesis by linarith
    qed
    with g show False by simp
  qed
next
  assume g: "D < 5 * W"
  have D0: "(0::rat) < of_int D" using assms(1) by simp
  from g have "D + 1 \<le> 5 * W" by simp
  then have "(of_int (D + 1) :: rat) \<le> of_int (5 * W)" by (simp only: of_int_le_iff)
  then have "(of_int D + 1 :: rat) \<le> 5 * of_int W" by simp
  then have "(of_int D + 1) / (5 * of_int D) \<le> (5 * of_int W / (5 * of_int D) :: rat)"
    using D0 by (intro divide_right_mono) simp_all
  then have "(of_int D + 1) / (5 * of_int D) \<le> (of_int W / of_int D :: rat)" by simp
  moreover have "(of_int D + 1) / (5 * of_int D) = (1/5 + 1 / (5 * of_int D) :: rat)"
    using D0 by (simp add: field_simps)
  moreover have "(1 / (5 * 2 ^ 52) :: rat) \<le> 1 / (5 * of_int D)"
  proof -
    have "(of_int D :: rat) \<le> of_int (2 ^ 52)" using assms(2) by (simp only: of_int_le_iff)
    then show ?thesis using D0 by (simp add: field_simps)
  qed
  ultimately have x: "(1/5 + 1 / (5 * 2 ^ 52) :: rat) \<le> of_int W / of_int D" by linarith
  have "fl (1/5 + 1 / (5 * 2 ^ 52)) \<le> fl (of_int W / of_int D)"
    by (rule fl_mono_pos[OF _ x]) simp
  with fl_fifth_gap show "fl (1/5) < fl (of_int W / of_int D)" by linarith
qed

lemma is_reset_iff:
  "is_reset rows i \<longleftrightarrow>
     or0 (conversation_history_chars (rows ! (i - 1))) > 1000 \<and>
     2 * or0 (conversation_history_chars (rows ! i)) < or0 (conversation_history_chars (rows ! (i - 1)))"
proof -
  have "((of_int c :: rat) < of_int p * (1/2)) \<longleftrightarrow> 2 * c < p" for c p :: int
  proof -
    have "((of_int c :: rat) < of_int p * (1/2)) \<longleftrightarrow> (of_int (2 * c) :: rat) < of_int p"
      by (simp add: field_simps)
    then show ?thesis by (simp only: of_int_less_iff)
  qed
  then show ?thesis by (simp add: is_reset_def Let_def)
qed

lemma boundary_example:
  assumes h: "map (\<lambda>r. or0 (conversation_history_chars r)) rows = [50, 5000, 40000, 500, 8000]"
  shows "last_reset_idx rows = 3"
proof -
  have "length rows = length (map (\<lambda>r. or0 (conversation_history_chars r)) rows)" by simp
  also have "\<dots> = 5" unfolding h by simp
  finally have len: "length rows = 5" .
  have nth: "or0 (conversation_history_chars (rows ! i)) = [50, 5000, 40000, 500, 8000] ! i" if "i < 5" for i
  proof -
    have "map (\<lambda>r. or0 (conversation_history_chars r)) rows ! i = or0 (conversation_history_chars (rows ! i))"
      using that len by simp
    then show ?thesis unfolding h by simp
  qed
  have r1: "\<not> is_reset rows 1" using nth[of 0] nth[of 1] by (simp add: is_reset_iff)
  have r2: "\<not> is_reset rows 2" using nth[of 1] nth[of 2] by (simp add: is_reset_iff)
  have r3: "is_reset rows 3" using nth[of 2] nth[of 3] by (simp add: is_reset_iff)
  have r4: "\<not> is_reset rows 4" using nth[of 3] nth[of 4] by (simp add: is_reset_iff)
  have "[1..<5] = [1, 2, 3, 4::nat]" by (simp add: upt_rec)
  then show ?thesis using r1 r2 r3 r4 by (simp add: last_reset_idx_def len)
qed

text \<open>
  C8. When the window of usage records for the agent is empty, the status has every counter
  (session turns, history chars, last-turn cost, rolling average cost, cache-write ratio, cost
  since reset, turns since reset) equal to zero and the recommendation \<open>no_data\<close>.
\<close>

theorem query_session_status_empty:
  "query_session_status py_sum ag [] T =
     Inr \<lparr>agent = ag, current_session_turns = 0, current_history_chars = 0,
          last_turn_cost = 0, avg_cost_last_5 = 0, cache_write_pct_last_5 = 0,
          cost_since_last_reset = 0, turns_since_last_reset = 0,
          recommendation = ''no_data''\<rparr>"
  by (simp add: query_session_status_def)

text \<open>
  C3. For a non-empty chronological window, the boundary \<open>last_reset_idx\<close> is a valid index:
  either it is 0 and no adjacent pair has a previous history count above 1000 with the current
  count below half of it, or it is the index of the current record of the last such pair. The
  current session is the suffix from that index, and the cost since reset is Python's
  \<open>sum\<close> of the estimated costs (NULL as 0) over exactly that suffix, in the order of the
  records; the returned field \<open>cost_since_last_reset\<close> is that sum rounded to 6 places by
  \<open>round\<close>, and \<open>turns_since_last_reset\<close> is the length of the suffix. For history counts
  [50, 5000, 40000, 500, 8000] the boundary is index 3 (the record with 500) and the cost sums
  the last two records only.
\<close>

theorem session_boundary:
  assumes "rows \<noteq> []"
  shows "(let b = last_reset_idx rows;
              h = (\<lambda>i. or0 (conversation_history_chars (rows ! i)))
          in b < length rows \<and>
             ((b = 0 \<and> (\<forall>i. 1 \<le> i \<and> i < length rows \<longrightarrow>
                           \<not> (h (i - 1) > 1000 \<and> 2 * h i < h (i - 1)))) \<or>
              (1 \<le> b \<and> h (b - 1) > 1000 \<and> 2 * h b < h (b - 1) \<and>
               (\<forall>i. b < i \<and> i < length rows \<longrightarrow>
                           \<not> (h (i - 1) > 1000 \<and> 2 * h i < h (i - 1))))) \<and>
             session_rows rows = drop b rows \<and>
             total_cost py_sum (session_rows rows) =
               py_sum (map (\<lambda>r. or0 (estimated_cost_usd r)) (drop b rows)) \<and>
             (\<exists>st. query_session_status py_sum ag rows T = Inr st \<and>
                   turns_since_last_reset st = length rows - b \<and>
                   cost_since_last_reset st =
                     py_round (py_sum (map (\<lambda>r. or0 (estimated_cost_usd r)) (drop b rows))) 6) \<and>
             (map (\<lambda>r. or0 (conversation_history_chars r)) rows = [50, 5000, 40000, 500, 8000] \<longrightarrow>
                b = 3 \<and> session_rows rows = [rows ! 3, rows ! 4] \<and>
                total_cost py_sum (session_rows rows) =
                  py_sum [or0 (estimated_cost_usd (rows ! 3)), or0 (estimated_cost_usd (rows ! 4))]))"
proof -
  let ?b = "last_reset_idx rows"
  let ?h = "\<lambda>i. or0 (conversation_history_chars (rows ! i))"
  have p1: "?b < length rows" by (rule last_reset_idx_less[OF assms])
  have p2: "(?b = 0 \<and> (\<forall>i. 1 \<le> i \<and> i < length rows \<longrightarrow>
                           \<not> (?h (i - 1) > 1000 \<and> 2 * ?h i < ?h (i - 1)))) \<or>
              (1 \<le> ?b \<and> ?h (?b - 1) > 1000 \<and> 2 * ?h ?b < ?h (?b - 1) \<and>
               (\<forall>i. ?b < i \<and> i < length rows \<longrightarrow>
                           \<not> (?h (i - 1) > 1000 \<and> 2 * ?h i < ?h (i - 1))))"
    using last_reset_idx_char[OF assms] unfolding is_reset_iff by blast
  have p3: "session_rows rows = drop ?b rows" by (simp add: session_rows_def)
  have p4: "total_cost py_sum (session_rows rows) =
      py_sum (map (\<lambda>r. or0 (estimated_cost_usd r)) (drop ?b rows))"
    by (simp add: total_cost_def session_rows_def)
  have p5: "\<exists>st. query_session_status py_sum ag rows T = Inr st \<and>
                   turns_since_last_reset st = length rows - ?b \<and>
                   cost_since_last_reset st =
                     py_round (py_sum (map (\<lambda>r. or0 (estimated_cost_usd r)) (drop ?b rows))) 6"
    unfolding query_session_status_nonempty[OF assms]
    by (simp add: total_cost_def session_rows_def)
  have p6: "?b = 3 \<and> session_rows rows = [rows ! 3, rows ! 4] \<and>
        total_cost py_sum (session_rows rows) =
          py_sum [or0 (estimated_cost_usd (rows ! 3)), or0 (estimated_cost_usd (rows ! 4))]"
    if h: "map (\<lambda>r. or0 (conversation_history_chars r)) rows = [50, 5000, 40000, 500, 8000]"
  proof -
    have b: "?b = 3" by (rule boundary_example[OF h])
    have "length rows = length (map (\<lambda>r. or0 (conversation_history_chars r)) rows)" by simp
    also have "\<dots> = 5" unfolding h by simp
    finally have len: "length rows = 5" .
    then obtain r0 r1 r2 r3 r4 where rows: "rows = [r0, r1, r2, r3, r4]"
      by (auto simp: length_Suc_conv eval_nat_numeral)
    have s: "session_rows rows = [rows ! 3, rows ! 4]"
      unfolding session_rows_def b by (simp add: rows)
    have "total_cost py_sum (session_rows rows) =
          py_sum [or0 (estimated_cost_usd (rows ! 3)), or0 (estimated_cost_usd (rows ! 4))]"
      unfolding s by (simp add: total_cost_def)
    with b s show ?thesis by simp
  qed
  from p6 have p7: "map (\<lambda>r. or0 (conversation_history_chars r)) rows = [50, 5000, 40000, 500, 8000] \<longrightarrow>
        ?b = 3 \<and> session_rows rows = [rows ! 3, rows ! 4] \<and>
        total_cost py_sum (session_rows rows) =
          py_sum [or0 (estimated_cost_usd (rows ! 3)), or0 (estimated_cost_usd (rows ! 4))]"
    by (rule impI)
  show ?thesis unfolding Let_def by (intro conjI p1 p2 p3 p4 p5 p7)
qed

theorem session_boundary_witness:
  "example_window \<noteq> [] \<and>
   map (\<lambda>r. or0 (conversation_history_chars r)) example_window = [50, 5000, 40000, 500, 8000] \<and>
   last_reset_idx example_window = 3 \<and>
   session_rows example_window =
     [example_row 500 0 0 (25/10000000), example_row 8000 0 0 (3/1000000)] \<and>
   total_cost sum_left (session_rows example_window) =
     3246626956972881 / 590295810358705651712 \<and>
   (\<exists>st. query_session_status sum_left ''main'' example_window 200000 = Inr st \<and>
         turns_since_last_reset st = 2 \<and> cost_since_last_reset st = fl (5/1000000))"
proof -
  have ne: "example_window \<noteq> []" by (simp add: example_window_def)
  have h: "map (\<lambda>r. or0 (conversation_history_chars r)) example_window = [50, 5000, 40000, 500, 8000]"
    by (simp add: example_window_def example_row_def or0_def)
  note T = session_boundary [OF ne, of sum_left "''main''" 200000, unfolded Let_def]
  note T5 = T [THEN conjunct2, THEN conjunct2, THEN conjunct2, THEN conjunct2, THEN conjunct1]
  note T6 = T [THEN conjunct2, THEN conjunct2, THEN conjunct2, THEN conjunct2, THEN conjunct2,
      THEN mp, OF h]
  have b: "last_reset_idx example_window = 3" by (rule T6 [THEN conjunct1])
  have n3: "example_window ! 3 = example_row 500 0 0 (25/10000000)"
    and n4: "example_window ! 4 = example_row 8000 0 0 (3/1000000)"
    by (simp_all add: example_window_def)
  have s: "session_rows example_window =
      [example_row 500 0 0 (25/10000000), example_row 8000 0 0 (3/1000000)]"
    using T6 [THEN conjunct2, THEN conjunct1] unfolding n3 n4 .
  have e: "sum_left [or0 (estimated_cost_usd (example_row 500 0 0 (25/10000000))),
                     or0 (estimated_cost_usd (example_row 8000 0 0 (3/1000000)))] =
           3246626956972881 / 590295810358705651712"
    by code_simp
  have c: "total_cost sum_left (session_rows example_window) =
      3246626956972881 / 590295810358705651712"
    using T6 [THEN conjunct2, THEN conjunct2] unfolding n3 n4 e .
  have d: "map (\<lambda>r. or0 (estimated_cost_usd r)) (drop 3 example_window) =
      [or0 (estimated_cost_usd (example_row 500 0 0 (25/10000000))),
       or0 (estimated_cost_usd (example_row 8000 0 0 (3/1000000)))]"
    by (simp add: example_window_def)
  have r: "py_round (3246626956972881 / 590295810358705651712) 6 = fl (5/1000000)"
    by code_simp
  have l: "length example_window - 3 = 2" by (simp add: example_window_def)
  have st: "\<exists>st. query_session_status sum_left ''main'' example_window 200000 = Inr st \<and>
         turns_since_last_reset st = 2 \<and> cost_since_last_reset st = fl (5/1000000)"
    using T5 unfolding b d l e r .
  show ?thesis by (intro conjI ne h b s c st)
qed

text \<open>
  C9. For a non-empty window, the rolling window is a suffix of the current session, the whole
  session when it has at most 5 records and of length 5 otherwise. The cache-write ratio is the
  sum of cache-write tokens in the window divided by the maximum of 1 and the sum of cache-read
  plus cache-write tokens, as Python's true division of two ints returns it: the double nearest
  to the quotient. The divisor is never zero, so the division never raises, and the ratio is
  zero when no record of the window has cache activity. The returned field
  \<open>cache_write_pct_last_5\<close> is the ratio rounded to 4 places by \<open>round\<close>. The float
  ratio differs from the exact quotient by at most the fraction \<open>2\<^sup>-\<^sup>5\<^sup>3\<close> of it (plus
  \<open>2\<^sup>-\<^sup>1\<^sup>0\<^sup>7\<^sup>5\<close>, which covers underflow).
\<close>

theorem rolling_window_cache_ratio:
  assumes "rows \<noteq> []"
  shows "(let s = session_rows rows; w = last_5 s;
              W = (\<Sum>r \<leftarrow> w. or0 (cache_write_tokens r));
              R = (\<Sum>r \<leftarrow> w. or0 (cache_read_tokens r))
          in suffix w s \<and> (length s \<le> 5 \<longrightarrow> w = s) \<and> (5 \<le> length s \<longrightarrow> length w = 5) \<and>
             max 1 (R + W) \<noteq> 0 \<and>
             cache_write_pct w = Inr (fl (of_int W / of_int (max 1 (R + W)))) \<and>
             ((\<forall>r \<in> set w. or0 (cache_read_tokens r) = 0 \<and> or0 (cache_write_tokens r) = 0) \<longrightarrow>
                cache_write_pct w = Inr 0) \<and>
             (\<exists>st. query_session_status py_sum ag rows T = Inr st \<and>
                   cache_write_pct_last_5 st =
                     py_round (fl (of_int W / of_int (max 1 (R + W)))) 4) \<and>
             \<bar>fl (of_int W / of_int (max 1 (R + W))) - of_int W / of_int (max 1 (R + W))\<bar> \<le>
               \<bar>of_int W / of_int (max 1 (R + W))\<bar> / 2 ^ 53 + 2 powi (- 1075))"
proof -
  let ?s = "session_rows rows"
  let ?w = "last_5 ?s"
  let ?W = "(\<Sum>r \<leftarrow> ?w. or0 (cache_write_tokens r))"
  let ?R = "(\<Sum>r \<leftarrow> ?w. or0 (cache_read_tokens r))"
  have p1: "suffix ?w ?s" by (simp add: last_5_def suffix_drop)
  have p2: "length ?s \<le> 5 \<longrightarrow> ?w = ?s" by (simp add: last_5_def)
  have p3: "5 \<le> length ?s \<longrightarrow> length ?w = 5" by (simp add: last_5_def)
  have p4: "max 1 (?R + ?W) \<noteq> 0" by linarith
  have p5: "cache_write_pct ?w = Inr (fl (of_int ?W / of_int (max 1 (?R + ?W))))"
    by (rule cache_write_pct_ok)
  have p6: "(\<forall>r \<in> set ?w. or0 (cache_read_tokens r) = 0 \<and> or0 (cache_write_tokens r) = 0) \<longrightarrow>
                cache_write_pct ?w = Inr 0"
  proof
    assume a: "\<forall>r \<in> set ?w. or0 (cache_read_tokens r) = 0 \<and> or0 (cache_write_tokens r) = 0"
    then have "map (\<lambda>r. or0 (cache_write_tokens r)) ?w = map (\<lambda>r. 0) ?w" by simp
    then have "?W = 0" by (simp only: sum_list_0)
    then show "cache_write_pct ?w = Inr 0" unfolding p5 by (simp add: fl_0)
  qed
  have p7: "\<exists>st. query_session_status py_sum ag rows T = Inr st \<and>
                   cache_write_pct_last_5 st =
                     py_round (fl (of_int ?W / of_int (max 1 (?R + ?W)))) 4"
    unfolding query_session_status_nonempty[OF assms] by simp
  have p8: "\<bar>fl (of_int ?W / of_int (max 1 (?R + ?W))) - of_int ?W / of_int (max 1 (?R + ?W))\<bar> \<le>
      \<bar>of_int ?W / of_int (max 1 (?R + ?W))\<bar> / 2 ^ 53 + 2 powi (- 1075)"
    by (rule fl_err)
  show ?thesis unfolding Let_def by (intro conjI p1 p2 p3 p4 p5 p6 p7 p8)
qed

theorem rolling_window_cache_ratio_witness:
  "example_cache_window \<noteq> [] \<and>
   last_5 (session_rows example_cache_window) = example_cache_window \<and>
   cache_write_pct (last_5 (session_rows example_cache_window)) = Inr (1/4) \<and>
   (\<exists>st. query_session_status sum_left ''main'' example_cache_window 200000 = Inr st \<and>
         cache_write_pct_last_5 st = 1/4) \<and>
   example_window \<noteq> [] \<and>
   map (\<lambda>r. (or0 (cache_read_tokens r), or0 (cache_write_tokens r)))
     (last_5 (session_rows example_window)) = [(0, 0), (0, 0)] \<and>
   cache_write_pct (last_5 (session_rows example_window)) = Inr 0 \<and>
   example_small_ratio \<noteq> [] \<and>
   cache_write_pct (last_5 (session_rows example_small_ratio)) =
     Inr (7378697629483821 / 147573952589676412928) \<and>
   (\<exists>st. query_session_status sum_left ''main'' example_small_ratio 200000 = Inr st \<and>
         cache_write_pct_last_5 st = fl (1/10000)) \<and>
   example_ratio \<noteq> [] \<and>
   cache_write_pct (last_5 (session_rows example_ratio)) =
     Inr (2589569785738035 / 18014398509481984) \<and>
   (\<exists>st. query_session_status sum_left ''main'' example_ratio 200000 = Inr st \<and>
         cache_write_pct_last_5 st = fl (1437/10000))"
proof -
  have ne: "example_cache_window \<noteq> []" by (simp add: example_cache_window_def)
  have s: "session_rows example_cache_window = example_cache_window" by code_simp
  have len: "length (session_rows example_cache_window) \<le> 5"
    unfolding s by (simp add: example_cache_window_def)
  note T = rolling_window_cache_ratio [OF ne, of sum_left "''main''" 200000, unfolded Let_def]
  have w: "last_5 (session_rows example_cache_window) = example_cache_window"
    using T [THEN conjunct2, THEN conjunct1, THEN mp, OF len] unfolding s .
  have W: "(\<Sum>r \<leftarrow> example_cache_window. or0 (cache_write_tokens r)) = 300"
    and R: "(\<Sum>r \<leftarrow> example_cache_window. or0 (cache_read_tokens r)) = 900"
    by (simp_all add: example_cache_window_def example_row_def or0_def)
  have q: "fl (of_int 300 / of_int (max 1 (900 + 300))) = 1/4" by code_simp
  have r: "py_round (1/4) 4 = 1/4" by code_simp
  have p: "cache_write_pct (last_5 (session_rows example_cache_window)) = Inr (1/4)"
    using T [THEN conjunct2, THEN conjunct2, THEN conjunct2, THEN conjunct2, THEN conjunct1]
    unfolding w W R q .
  have st: "\<exists>st. query_session_status sum_left ''main'' example_cache_window 200000 = Inr st \<and>
         cache_write_pct_last_5 st = 1/4"
    using T [THEN conjunct2, THEN conjunct2, THEN conjunct2, THEN conjunct2, THEN conjunct2,
        THEN conjunct2, THEN conjunct1]
    unfolding w W R q r .
  have ne2: "example_window \<noteq> []" by (simp add: example_window_def)
  have z: "\<forall>r \<in> set (last_5 (session_rows example_window)).
      or0 (cache_read_tokens r) = 0 \<and> or0 (cache_write_tokens r) = 0"
    by code_simp
  note T2 = rolling_window_cache_ratio [OF ne2, of sum_left "''main''" 200000, unfolded Let_def]
  have p0: "cache_write_pct (last_5 (session_rows example_window)) = Inr 0"
    by (rule T2 [THEN conjunct2, THEN conjunct2, THEN conjunct2, THEN conjunct2, THEN conjunct2,
        THEN conjunct1, THEN mp, OF z])
  have z': "map (\<lambda>r. (or0 (cache_read_tokens r), or0 (cache_write_tokens r)))
     (last_5 (session_rows example_window)) = [(0, 0), (0, 0)]"
    by code_simp
  have ne3: "example_small_ratio \<noteq> []" by (simp add: example_small_ratio_def)
  have w3: "last_5 (session_rows example_small_ratio) = example_small_ratio" by code_simp
  have W3: "(\<Sum>r \<leftarrow> example_small_ratio. or0 (cache_write_tokens r)) = 1"
    and R3: "(\<Sum>r \<leftarrow> example_small_ratio. or0 (cache_read_tokens r)) = 19999"
    by (simp_all add: example_small_ratio_def example_row_def or0_def)
  have q3: "fl (of_int 1 / of_int (max 1 (19999 + 1))) =
      7378697629483821 / 147573952589676412928" by code_simp
  have r3: "py_round (7378697629483821 / 147573952589676412928) 4 = fl (1/10000)" by code_simp
  note T3 = rolling_window_cache_ratio [OF ne3, of sum_left "''main''" 200000, unfolded Let_def]
  have p3: "cache_write_pct (last_5 (session_rows example_small_ratio)) =
     Inr (7378697629483821 / 147573952589676412928)"
    using T3 [THEN conjunct2, THEN conjunct2, THEN conjunct2, THEN conjunct2, THEN conjunct1]
    unfolding w3 W3 R3 q3 .
  have st3: "\<exists>st. query_session_status sum_left ''main'' example_small_ratio 200000 = Inr st \<and>
         cache_write_pct_last_5 st = fl (1/10000)"
    using T3 [THEN conjunct2, THEN conjunct2, THEN conjunct2, THEN conjunct2, THEN conjunct2,
        THEN conjunct2, THEN conjunct1]
    unfolding w3 W3 R3 q3 r3 .
  have ne4: "example_ratio \<noteq> []" by (simp add: example_ratio_def)
  have w4: "last_5 (session_rows example_ratio) = example_ratio" by code_simp
  have W4: "(\<Sum>r \<leftarrow> example_ratio. or0 (cache_write_tokens r)) = 3036"
    and R4: "(\<Sum>r \<leftarrow> example_ratio. or0 (cache_read_tokens r)) = 18084"
    by (simp_all add: example_ratio_def example_row_def or0_def)
  have q4: "fl (of_int 3036 / of_int (max 1 (18084 + 3036))) =
      2589569785738035 / 18014398509481984" by code_simp
  have r4: "py_round (2589569785738035 / 18014398509481984) 4 = fl (1437/10000)" by code_simp
  note T4 = rolling_window_cache_ratio [OF ne4, of sum_left "''main''" 200000, unfolded Let_def]
  have p4: "cache_write_pct (last_5 (session_rows example_ratio)) =
     Inr (2589569785738035 / 18014398509481984)"
    using T4 [THEN conjunct2, THEN conjunct2, THEN conjunct2, THEN conjunct2, THEN conjunct1]
    unfolding w4 W4 R4 q4 .
  have st4: "\<exists>st. query_session_status sum_left ''main'' example_ratio 200000 = Inr st \<and>
         cache_write_pct_last_5 st = fl (1437/10000)"
    using T4 [THEN conjunct2, THEN conjunct2, THEN conjunct2, THEN conjunct2, THEN conjunct2,
        THEN conjunct2, THEN conjunct1]
    unfolding w4 W4 R4 q4 r4 .
  show ?thesis by (intro conjI ne w p st ne2 z' p0 ne3 p3 st3 ne4 p4 st4)
qed

text \<open>
  C4. For a non-empty window and threshold \<open>T\<close>, with the current history taken from the final
  record: history above 2.5 T gives \<open>reset_recommended\<close>; else above 2 T gives
  \<open>compact_soon\<close>; else above T gives \<open>monitor\<close>; else a cache-write ratio over the
  rolling window above 0.20 with at least 3 records in the window gives \<open>cache_unstable\<close>;
  else \<open>healthy\<close>. The ratio and 0.20 are the floats the function compares; as long as
  the divisor of the ratio is at most \<open>2\<^sup>5\<^sup>2\<close>, the float comparison holds exactly when the
  quotient of the two token sums exceeds one fifth.
\<close>

theorem recommendation_priority:
  assumes "rows \<noteq> []"
  shows "\<exists>st. query_session_status py_sum ag rows T = Inr st \<and>
          (let h = or0 (conversation_history_chars (last rows));
               w = last_5 (session_rows rows);
               W = (\<Sum>r \<leftarrow> w. or0 (cache_write_tokens r));
               R = (\<Sum>r \<leftarrow> w. or0 (cache_read_tokens r));
               ratio = fl (of_int W / of_int (max 1 (R + W)))
           in current_history_chars st = h \<and>
              recommendation st =
                (if (of_int h :: rat) > 5/2 * of_int T then ''reset_recommended''
                 else if h > 2 * T then ''compact_soon''
                 else if h > T then ''monitor''
                 else if ratio > fl (1/5) \<and> 3 \<le> length w then ''cache_unstable''
                 else ''healthy'') \<and>
              (max 1 (R + W) \<le> 2 ^ 52 \<longrightarrow>
                 (ratio > fl (1/5)) = ((of_int W / of_int (max 1 (R + W)) :: rat) > 1/5)))"
proof -
  let ?w = "last_5 (session_rows rows)"
  let ?W = "(\<Sum>r \<leftarrow> ?w. or0 (cache_write_tokens r))"
  let ?R = "(\<Sum>r \<leftarrow> ?w. or0 (cache_read_tokens r))"
  let ?D = "max 1 (?R + ?W)"
  have eq: "(fl (of_int ?W / of_int ?D) > fl (1/5)) = ((of_int ?W / of_int ?D :: rat) > 1/5)"
    if le: "?D \<le> 2 ^ 52"
  proof -
    have D1: "1 \<le> ?D" by simp
    have D0: "(0::rat) < of_int ?D" using D1 by linarith
    have "((of_int ?W / of_int ?D :: rat) > 1/5) = ((of_int ?D :: rat) < of_int (5 * ?W))"
      using D0 by (simp add: field_simps)
    also have "\<dots> = (?D < 5 * ?W)" by (simp only: of_int_less_iff)
    finally show ?thesis using ratio_gt_fifth[OF D1 le, of ?W] by simp
  qed
  show ?thesis
    unfolding query_session_status_nonempty[OF assms]
    using eq by (simp add: recommend_def Let_def mult.commute)
qed

theorem recommendation_priority_witness:
  "(\<exists>st. query_session_status sum_left ''main'' [example_row 500001 0 0 0] 200000 = Inr st \<and>
         current_history_chars st = 500001 \<and>
         recommendation st = ''reset_recommended'') \<and>
   (\<exists>st. query_session_status sum_left ''main'' [example_row 400001 0 0 0] 200000 = Inr st \<and>
         current_history_chars st = 400001 \<and>
         recommendation st = ''compact_soon'') \<and>
   (\<exists>st. query_session_status sum_left ''main'' [example_row 200001 0 0 0] 200000 = Inr st \<and>
         current_history_chars st = 200001 \<and>
         recommendation st = ''monitor'') \<and>
   (\<exists>st. query_session_status sum_left ''main'' example_cache_window 200000 = Inr st \<and>
         current_history_chars st = 3000 \<and>
         recommendation st = ''cache_unstable'') \<and>
   (\<exists>st. query_session_status sum_left ''main'' example_window 200000 = Inr st \<and>
         current_history_chars st = 8000 \<and>
         recommendation st = ''healthy'')"
proof -
  have s1: "session_rows [example_row h 0 0 0] = [example_row h 0 0 0]" for h
    by (simp add: session_rows_def last_reset_idx_def)
  have f0: "fl (0 / of_int (max 1 (0 + 0))) \<le> fl (1/5)"
    using fl_nonneg[of "1/5"] by (simp add: fl_0)
  have a: "\<exists>st. query_session_status sum_left ''main'' [example_row 500001 0 0 0] 200000 = Inr st \<and>
         current_history_chars st = 500001 \<and>
         recommendation st = ''reset_recommended''"
    using recommendation_priority [of "[example_row 500001 0 0 0]" sum_left "''main''" 200000]
    by (auto simp: Let_def s1 last_5_def example_row_def or0_def)
  have b: "\<exists>st. query_session_status sum_left ''main'' [example_row 400001 0 0 0] 200000 = Inr st \<and>
         current_history_chars st = 400001 \<and>
         recommendation st = ''compact_soon''"
    using recommendation_priority [of "[example_row 400001 0 0 0]" sum_left "''main''" 200000]
    by (auto simp: Let_def s1 last_5_def example_row_def or0_def)
  have c: "\<exists>st. query_session_status sum_left ''main'' [example_row 200001 0 0 0] 200000 = Inr st \<and>
         current_history_chars st = 200001 \<and>
         recommendation st = ''monitor''"
    using recommendation_priority [of "[example_row 200001 0 0 0]" sum_left "''main''" 200000]
    by (auto simp: Let_def s1 last_5_def example_row_def or0_def)
  have ne: "example_cache_window \<noteq> []" by (simp add: example_cache_window_def)
  have w: "last_5 (session_rows example_cache_window) = example_cache_window" by code_simp
  have h: "or0 (conversation_history_chars (last example_cache_window)) = 3000"
    by (simp add: example_cache_window_def example_row_def or0_def)
  have W: "(\<Sum>r \<leftarrow> example_cache_window. or0 (cache_write_tokens r)) = 300"
    and R: "(\<Sum>r \<leftarrow> example_cache_window. or0 (cache_read_tokens r)) = 900"
    and l: "length example_cache_window = 3"
    by (simp_all add: example_cache_window_def example_row_def or0_def)
  have q: "fl (1/5) < fl (of_int 300 / of_int (max 1 (900 + 300)))" by code_simp
  have d: "\<exists>st. query_session_status sum_left ''main'' example_cache_window 200000 = Inr st \<and>
         current_history_chars st = 3000 \<and>
         recommendation st = ''cache_unstable''"
    using recommendation_priority [OF ne, of sum_left "''main''" 200000] q
    unfolding Let_def w h W R l by auto
  have ne2: "example_window \<noteq> []" by (simp add: example_window_def)
  have w2: "last_5 (session_rows example_window) =
      [example_row 500 0 0 (25/10000000), example_row 8000 0 0 (3/1000000)]" by code_simp
  have h2: "or0 (conversation_history_chars (last example_window)) = 8000"
    by (simp add: example_window_def example_row_def or0_def)
  have W2: "(\<Sum>r \<leftarrow> [example_row 500 0 0 (25/10000000), example_row 8000 0 0 (3/1000000)]. or0 (cache_write_tokens r)) = 0"
    and R2: "(\<Sum>r \<leftarrow> [example_row 500 0 0 (25/10000000), example_row 8000 0 0 (3/1000000)]. or0 (cache_read_tokens r)) = 0"
    by (simp_all add: example_row_def or0_def)
  have e: "\<exists>st. query_session_status sum_left ''main'' example_window 200000 = Inr st \<and>
         current_history_chars st = 8000 \<and>
         recommendation st = ''healthy''"
    using recommendation_priority [OF ne2, of sum_left "''main''" 200000] f0
    unfolding Let_def w2 h2 W2 R2 by auto
  show ?thesis by (intro conjI a b c d e)
qed

subsection \<open>Request analysis\<close>

lemma distinct_ws_keys: "distinct (map snd WORKSPACE_FILE_MAP)"
  by (simp add: WORKSPACE_FILE_MAP_def)

lemma fold_upd_zero:
  "fold (\<lambda>key r. r(key \<mapsto> 0)) ks m k = (if k \<in> set ks then Some (0::int) else m k)"
  by (induction ks arbitrary: m) auto

lemma zero_workspace_apply:
  "zero_workspace m k = (if k \<in> snd ` set WORKSPACE_FILE_MAP then Some 0 else m k)"
  by (simp add: zero_workspace_def fold_upd_zero)

lemma match_workspace_in: "match_workspace m tx = Some k \<Longrightarrow> k \<in> snd ` set m"
  by (induction m tx rule: match_workspace.induct) (auto split: if_splits)

lemma marker_two_hashes: "sublist (''## '' @ fn) tx \<Longrightarrow> sublist (''# '' @ fn) tx"
proof -
  assume "sublist (''## '' @ fn) tx"
  then obtain ps ss where "tx = ps @ (''## '' @ fn) @ ss" by (auto simp: sublist_def)
  then have "tx = (ps @ ''#'') @ (''# '' @ fn) @ ss" by simp
  then show ?thesis unfolding sublist_def by blast
qed

lemma marker_disj:
  "(sublist (''## '' @ fn) tx \<or> sublist (''# '' @ fn) tx) \<longleftrightarrow> sublist (''# '' @ fn) tx"
  using marker_two_hashes by blast

lemma match_workspace_None:
  "match_workspace m tx = None \<longleftrightarrow> (\<forall>fn \<in> fst ` set m. \<not> sublist (''# '' @ fn) tx)"
  by (induction m tx rule: match_workspace.induct) (auto simp: marker_disj simp del: append.simps)

lemma match_workspace_nth:
  assumes "distinct (map snd m)" "i < length m"
  shows "match_workspace m tx = Some (snd (m ! i)) \<longleftrightarrow>
           sublist (''# '' @ fst (m ! i)) tx \<and> (\<forall>j < i. \<not> sublist (''# '' @ fst (m ! j)) tx)"
  using assms
proof (induction m tx arbitrary: i rule: match_workspace.induct)
  case (1 tx)
  then show ?case by simp
next
  case (2 filename metric_key rest tx)
  show ?case
  proof (cases i)
    case 0
    from 2(2) have "metric_key \<notin> snd ` set rest" by auto
    then have "match_workspace rest tx \<noteq> Some metric_key"
      using match_workspace_in by blast
    with 0 show ?thesis by (simp add: marker_disj del: append.simps)
  next
    case (Suc i')
    with 2 have i': "i' < length rest" and d: "distinct (map snd rest)"
      and nk: "metric_key \<notin> snd ` set rest" by auto
    have ne: "snd (rest ! i') \<noteq> metric_key" using nk i' by (metis nth_mem image_eqI)
    show ?thesis
    proof (cases "sublist (''# '' @ filename) tx")
      case True
      then show ?thesis using Suc ne by (auto simp: marker_disj simp del: append.simps)
    next
      case False
      then have "\<not> (sublist (''## '' @ filename) tx \<or> sublist (''# '' @ filename) tx)"
        using marker_disj[of filename tx] by blast
      with 2(1)[OF this d i'] False show ?thesis
        using Suc by (auto simp: marker_disj less_Suc_eq_0_disj simp del: append.simps)
    qed
  qed
qed

lemma block_section_in:
  "block_section b = Some k \<Longrightarrow> k \<in> snd ` set WORKSPACE_FILE_MAP"
  by (auto simp: block_section_def split: option.splits dest: match_workspace_in)

lemma analyze_block_result:
  assumes "\<forall>k \<in> snd ` set WORKSPACE_FILE_MAP. workspace_chars acc k \<noteq> None"
  shows "\<exists>acc'. analyze_block acc b = Inr acc' \<and>
     total_chars acc' = total_chars acc + block_len b \<and>
     base_chars acc' = base_chars acc + (if block_section b = None then block_len b else 0) \<and>
     (\<forall>k. workspace_chars acc' k =
        map_option (\<lambda>v. v + (if block_section b = Some k then block_len b else 0))
          (workspace_chars acc k))"
proof (cases "block_text b")
  case None
  then show ?thesis
    by (simp add: analyze_block_def block_len_def block_section_def option.map_ident)
next
  case (Some t)
  show ?thesis
  proof (cases "match_workspace WORKSPACE_FILE_MAP t")
    case None
    with Some show ?thesis
      by (simp add: analyze_block_def block_len_def block_section_def Let_def option.map_ident)
  next
    case (Some key)
    then have "key \<in> snd ` set WORKSPACE_FILE_MAP" by (rule match_workspace_in)
    with assms obtain v where v: "workspace_chars acc key = Some v" by auto
    from \<open>block_text b = Some t\<close> Some v show ?thesis
      by (auto simp: analyze_block_def block_len_def block_section_def Let_def option.map_ident)
  qed
qed

lemma analyze_blocks_result:
  assumes "\<forall>k \<in> snd ` set WORKSPACE_FILE_MAP. workspace_chars acc k \<noteq> None"
  shows "\<exists>acc'. analyze_blocks bs acc = Inr acc' \<and>
     total_chars acc' = total_chars acc + (\<Sum>b \<leftarrow> bs. block_len b) \<and>
     base_chars acc' = base_chars acc + section_chars bs None \<and>
     (\<forall>k. workspace_chars acc' k =
        map_option (\<lambda>v. v + section_chars bs (Some k)) (workspace_chars acc k))"
  using assms
proof (induction bs arbitrary: acc)
  case Nil
  then show ?case by (simp add: section_chars_def option.map_ident)
next
  case (Cons b bs)
  from analyze_block_result[OF Cons.prems, of b] obtain acc1 where
    s: "analyze_block acc b = Inr acc1"
       "total_chars acc1 = total_chars acc + block_len b"
       "base_chars acc1 = base_chars acc + (if block_section b = None then block_len b else 0)"
       "\<forall>k. workspace_chars acc1 k =
        map_option (\<lambda>v. v + (if block_section b = Some k then block_len b else 0))
          (workspace_chars acc k)" by blast
  have "\<forall>k \<in> snd ` set WORKSPACE_FILE_MAP. workspace_chars acc1 k \<noteq> None"
    using Cons.prems s(4) by simp
  from Cons.IH[OF this] obtain acc2 where
    t: "analyze_blocks bs acc1 = Inr acc2"
       "total_chars acc2 = total_chars acc1 + (\<Sum>b \<leftarrow> bs. block_len b)"
       "base_chars acc2 = base_chars acc1 + section_chars bs None"
       "\<forall>k. workspace_chars acc2 k =
        map_option (\<lambda>v. v + section_chars bs (Some k)) (workspace_chars acc1 k)" by blast
  have "\<forall>k. workspace_chars acc2 k =
        map_option (\<lambda>v. v + section_chars (b # bs) (Some k)) (workspace_chars acc k)"
    using s(4) t(4) by (simp add: section_chars_def option.map_comp comp_def add.assoc)
  with s t show ?case by (simp add: section_chars_def)
qed

lemma analyze_system_prompt_result:
  "\<exists>res. analyze_system_prompt sys = Inr res \<and>
     (\<forall>k. res k =
        (if k \<in> snd ` set WORKSPACE_FILE_MAP then Some (section_chars (system_blocks sys) (Some k))
         else if k = ''base_prompt_chars'' then Some (section_chars (system_blocks sys) None)
         else if k = ''system_prompt_total_chars'' then Some (\<Sum>b \<leftarrow> system_blocks sys. block_len b)
         else None))"
proof -
  let ?acc0 = "\<lparr>total_chars = 0, base_chars = 0, workspace_chars = zero_workspace Map.empty\<rparr>"
  have nk: "''base_prompt_chars'' \<notin> snd ` set WORKSPACE_FILE_MAP"
    "''system_prompt_total_chars'' \<notin> snd ` set WORKSPACE_FILE_MAP"
    by (simp_all add: WORKSPACE_FILE_MAP_def)
  have a0: "\<forall>k \<in> snd ` set WORKSPACE_FILE_MAP. workspace_chars ?acc0 k \<noteq> None"
    by (simp add: zero_workspace_apply)
  from analyze_blocks_result[OF a0, of "system_blocks sys"] obtain acc where
    r: "analyze_blocks (system_blocks sys) ?acc0 = Inr acc"
       "total_chars acc = (\<Sum>b \<leftarrow> system_blocks sys. block_len b)"
       "base_chars acc = section_chars (system_blocks sys) None"
       "\<forall>k. workspace_chars acc k =
        map_option (\<lambda>v. v + section_chars (system_blocks sys) (Some k)) (zero_workspace Map.empty k)"
    by auto
  show ?thesis
  proof (cases sys)
    case (SysOther t)
    then show ?thesis
      using nk by (auto simp: analyze_system_prompt_def system_blocks_def section_chars_def
          zero_workspace_apply)
  next
    case (SysStr s)
    with r nk show ?thesis
      by (auto simp: analyze_system_prompt_def system_blocks_def zero_workspace_apply
          map_add_def split: option.splits)
  next
    case (SysList bs)
    with r nk show ?thesis
      by (auto simp: analyze_system_prompt_def system_blocks_def zero_workspace_apply
          map_add_def split: option.splits)
  qed
qed

lemma block_len_nonneg: "0 \<le> block_len b"
  by (simp add: block_len_def split: option.splits)

lemma section_chars_nonneg: "0 \<le> section_chars bs sec"
  unfolding section_chars_def by (rule sum_list_nonneg) (auto simp: block_len_nonneg)

lemma sum_list_indicator:
  "distinct ks \<Longrightarrow>
   (\<Sum>k \<leftarrow> ks. if a = Some k then n else 0) = (if a \<in> Some ` set ks then (n::int) else 0)"
  by (induction ks) auto

lemma block_len_split:
  "block_len b = (if block_section b = None then block_len b else 0) +
     (\<Sum>k \<leftarrow> map snd WORKSPACE_FILE_MAP. if block_section b = Some k then block_len b else 0)"
proof (cases "block_section b")
  case None
  then show ?thesis by (simp add: comp_def)
next
  case (Some k)
  then have "k \<in> snd ` set WORKSPACE_FILE_MAP" by (rule block_section_in)
  with Some show ?thesis
    using sum_list_indicator[OF distinct_ws_keys, of "Some k" "block_len b"] by (simp add: comp_def)
qed

lemma section_chars_Cons:
  "section_chars (b # bs) sec = (if block_section b = sec then block_len b else 0) + section_chars bs sec"
  by (simp add: section_chars_def)

lemma section_partition:
  "(\<Sum>b \<leftarrow> bs. block_len b) =
     section_chars bs None + (\<Sum>k \<leftarrow> map snd WORKSPACE_FILE_MAP. section_chars bs (Some k))"
proof (induction bs)
  case Nil
  then show ?case by (simp add: section_chars_def comp_def)
next
  case (Cons b bs)
  have "(\<Sum>k \<leftarrow> map snd WORKSPACE_FILE_MAP. section_chars (b # bs) (Some k)) =
        (\<Sum>k \<leftarrow> map snd WORKSPACE_FILE_MAP. if block_section b = Some k then block_len b else 0) +
        (\<Sum>k \<leftarrow> map snd WORKSPACE_FILE_MAP. section_chars bs (Some k))"
    by (simp only: section_chars_Cons sum_list_addf)
  moreover have "section_chars (b # bs) None =
      (if block_section b = None then block_len b else 0) + section_chars bs None"
    by (rule section_chars_Cons)
  moreover have "(\<Sum>b \<leftarrow> b # bs. block_len b) = block_len b + (\<Sum>b \<leftarrow> bs. block_len b)" by simp
  ultimately show ?case using Cons.IH block_len_split[of b] by linarith
qed

lemma falsy_system_blocks:
  "\<not> truthy_system sys \<Longrightarrow> section_chars (system_blocks sys) sec = 0 \<and>
     (\<Sum>b \<leftarrow> system_blocks sys. block_len b) = 0"
  by (cases sys) (auto simp: truthy_system_def system_blocks_def section_chars_def block_len_def block_text_def)

lemma truthy_system_of_json: "truthy_system (system_of_json py_str v) = truthy v"
  by (cases v) (simp_all add: truthy_system_def system_of_json_def truthy_def)

lemma count_roles_dicts:
  "list_all is_dict msgs \<Longrightarrow> \<exists>c. count_roles msgs c0 = Inr c"
proof (induction msgs arbitrary: c0)
  case Nil
  show ?case by simp
next
  case (Cons m ms)
  obtain u a where c0: "c0 = (u, a)" by (cases c0)
  from Cons.prems obtain kvs where m: "m = JObj kvs"
    by (cases m) (auto simp: is_dict_def)
  from Cons.prems have "list_all is_dict ms" by simp
  from Cons.IH[OF this] show ?case by (simp add: c0 m py_get_def)
qed

lemma count_roles_not_dict:
  "\<not> list_all is_dict msgs \<Longrightarrow> count_roles msgs c0 = Inl AttributeError"
proof (induction msgs arbitrary: c0)
  case Nil
  then show ?case by simp
next
  case (Cons m ms)
  obtain u a where c0: "c0 = (u, a)" by (cases c0)
  show ?case
  proof (cases "is_dict m")
    case True
    then obtain kvs where m: "m = JObj kvs" by (cases m) (auto simp: is_dict_def)
    from True Cons.prems have "\<not> list_all is_dict ms" by simp
    from Cons.IH[OF this] show ?thesis by (simp add: c0 m py_get_def)
  next
    case False
    then have "py_get m ''role'' (JStr []) = Inl AttributeError"
      by (cases m) (auto simp: is_dict_def py_get_def)
    then show ?thesis by (simp add: c0)
  qed
qed

lemma dicts_only_iter:
  "has_len m \<Longrightarrow> \<exists>msgs. py_iter m = Inr msgs \<and> dicts_only m = list_all is_dict msgs"
proof (cases m)
  case (JStr s)
  have "list_all is_dict (map (\<lambda>c. JStr [c]) s) = (s = [])"
    by (cases s) (simp_all add: is_dict_def)
  with JStr show ?thesis by (simp add: py_iter_def dicts_only_def)
next
  case (JObj kvs)
  have "list_all is_dict (map JStr ks) = (ks = [])" for ks
    by (cases ks) (simp_all add: is_dict_def)
  with JObj show ?thesis by (simp add: py_iter_def dicts_only_def)
qed (simp_all add: py_iter_def dicts_only_def has_len_def)

lemma has_len_py_len: "has_len m \<Longrightarrow> \<exists>n. py_len m = Inr n"
  by (cases m) (simp_all add: py_len_def has_len_def)

lemma no_len_py_len: "\<not> has_len m \<Longrightarrow> py_len m = Inl TypeError \<and> py_iter m = Inl TypeError"
  by (cases m) (simp_all add: py_len_def py_iter_def has_len_def)

lemma dicts_only_has_len: "dicts_only m \<Longrightarrow> has_len m"
  by (cases m) (simp_all add: dicts_only_def has_len_def)

lemma analyze_messages_result:
  "(\<not> has_len m \<longrightarrow> analyze_messages json_dumps m = Inl TypeError) \<and>
   (has_len m \<and> \<not> dicts_only m \<longrightarrow> analyze_messages json_dumps m = Inl AttributeError) \<and>
   (dicts_only m \<longrightarrow>
      (\<exists>n u a h. analyze_messages json_dumps m =
         Inr [''message_count'' \<mapsto> n, ''user_message_count'' \<mapsto> u,
              ''assistant_message_count'' \<mapsto> a, ''conversation_history_chars'' \<mapsto> h]))"
proof (cases "has_len m")
  case False
  then have "\<not> dicts_only m" using dicts_only_has_len by blast
  with False show ?thesis
    by (simp add: analyze_messages_def py_bind_def no_len_py_len)
next
  case True
  from dicts_only_iter[OF True] obtain msgs where
    it: "py_iter m = Inr msgs" and d: "dicts_only m = list_all is_dict msgs" by blast
  from has_len_py_len[OF True] obtain n where n: "py_len m = Inr n" by blast
  show ?thesis
  proof (cases "dicts_only m")
    case False
    with d have "count_roles msgs (0, 0) = Inl AttributeError"
      by (intro count_roles_not_dict) simp
    with True False show ?thesis by (simp add: analyze_messages_def py_bind_def it)
  next
    case dm: True
    with d obtain c where "count_roles msgs (0, 0) = Inr c"
      using count_roles_dicts[of msgs "(0, 0)"] by auto
    moreover obtain u a where "c = (u, a)" by (cases c)
    ultimately have "count_roles msgs (0, 0) = Inr (u, a)" by simp
    with True dm show ?thesis
      by (simp add: analyze_messages_def py_bind_def it n Let_def) (intro exI, rule refl)
  qed
qed

lemma analyze_request_result:
  "analyze_request py_str json_dumps body = Inr res \<Longrightarrow>
     (let bs = system_blocks (system_of_json py_str (dict_get body ''system'' (JArr [])))
      in res ''system_prompt_total_chars'' = Some (\<Sum>b \<leftarrow> bs. block_len b) \<and>
         res ''base_prompt_chars'' = Some (section_chars bs None) \<and>
         (\<forall>k \<in> snd ` set WORKSPACE_FILE_MAP. res k = Some (section_chars bs (Some k))))"
proof -
  assume ar: "analyze_request py_str json_dumps body = Inr res"
  let ?sys = "system_of_json py_str (dict_get body ''system'' (JArr []))"
  let ?m = "dict_get body ''messages'' (JArr [])"
  let ?t = "dict_get body ''tools'' (JArr [])"
  have nk: "''base_prompt_chars'' \<notin> snd ` set WORKSPACE_FILE_MAP"
    "''system_prompt_total_chars'' \<notin> snd ` set WORKSPACE_FILE_MAP"
    "''tool_count'' \<notin> snd ` set WORKSPACE_FILE_MAP"
    by (simp_all add: WORKSPACE_FILE_MAP_def)
  from analyze_system_prompt_result[of ?sys] obtain sa where
    sa: "analyze_system_prompt ?sys = Inr sa"
        "\<forall>k. sa k =
        (if k \<in> snd ` set WORKSPACE_FILE_MAP then Some (section_chars (system_blocks ?sys) (Some k))
         else if k = ''base_prompt_chars'' then Some (section_chars (system_blocks ?sys) None)
         else if k = ''system_prompt_total_chars'' then Some (\<Sum>b \<leftarrow> system_blocks ?sys. block_len b)
         else None)" by blast
  let ?result0 = "zero_workspace
            [''system_prompt_total_chars'' \<mapsto> 0, ''base_prompt_chars'' \<mapsto> 0,
             ''message_count'' \<mapsto> 0, ''user_message_count'' \<mapsto> 0,
             ''assistant_message_count'' \<mapsto> 0, ''conversation_history_chars'' \<mapsto> 0,
             ''tool_count'' \<mapsto> (0::int)]"
  let ?bs = "system_blocks ?sys"
  define result1 where "result1 = (if truthy_system ?sys then ?result0 ++ sa else ?result0)"
  have ar1: "analyze_request py_str json_dumps body =
      py_bind (analyze_messages json_dumps ?m) (\<lambda>msg_analysis.
      py_bind (py_len ?t) (\<lambda>tool_count.
        Inr ((result1 ++ msg_analysis)(''tool_count'' \<mapsto> int tool_count))))"
    by (simp add: analyze_request_def Let_def sa(1) result1_def py_bind_def
        truthy_system_of_json)
  from ar obtain ma where ma: "analyze_messages json_dumps ?m = Inr ma"
    unfolding ar1 by (cases "analyze_messages json_dumps ?m") (simp_all add: py_bind_def)
  from ar obtain n where n: "py_len ?t = Inr n"
    unfolding ar1 ma by (cases "py_len ?t") (simp_all add: py_bind_def)
  from ar have res: "res = (result1 ++ ma)(''tool_count'' \<mapsto> int n)"
    unfolding ar1 ma n by (simp add: py_bind_def)
  have dm: "dicts_only ?m"
    using analyze_messages_result[of ?m json_dumps] ma by (cases "has_len ?m") auto
  with analyze_messages_result[of ?m json_dumps] obtain mn mu maa mh where
    mav: "ma = [''message_count'' \<mapsto> mn, ''user_message_count'' \<mapsto> mu,
              ''assistant_message_count'' \<mapsto> maa, ''conversation_history_chars'' \<mapsto> mh]"
    using ma by auto
  have am: "ma k = None"
    if "k \<in> snd ` set WORKSPACE_FILE_MAP \<or> k = ''base_prompt_chars'' \<or> k = ''system_prompt_total_chars''"
    for k
    using that by (auto simp: mav WORKSPACE_FILE_MAP_def)
  have r1: "result1 k = sa k"
    if "k \<in> snd ` set WORKSPACE_FILE_MAP \<or> k = ''base_prompt_chars'' \<or> k = ''system_prompt_total_chars''"
    for k
  proof (cases "truthy_system ?sys")
    case True
    with that show ?thesis by (auto simp: result1_def map_add_def sa(2))
  next
    case False
    note z = falsy_system_blocks[OF False]
    have r0: "?result0 k = Some 0" using that nk by (auto simp: zero_workspace_apply)
    have "sa k = Some 0"
      using that nk by (auto simp: sa(2) z[THEN conjunct1] z[THEN conjunct2])
    with r0 show ?thesis by (simp add: result1_def False)
  qed
  have rk: "res k = sa k"
    if "k \<in> snd ` set WORKSPACE_FILE_MAP \<or> k = ''base_prompt_chars'' \<or> k = ''system_prompt_total_chars''"
    for k
  proof -
    from that nk have "k \<noteq> ''tool_count''" by auto
    then show ?thesis using am[OF that] r1[OF that] by (simp add: res map_add_def)
  qed
  have t: "res ''system_prompt_total_chars'' = Some (\<Sum>b \<leftarrow> ?bs. block_len b)"
    using rk[of "''system_prompt_total_chars''"] sa(2) nk by simp
  have b: "res ''base_prompt_chars'' = Some (section_chars ?bs None)"
    using rk[of "''base_prompt_chars''"] sa(2) nk by simp
  have w: "\<forall>k \<in> snd ` set WORKSPACE_FILE_MAP. res k = Some (section_chars ?bs (Some k))"
  proof
    fix k assume k: "k \<in> snd ` set WORKSPACE_FILE_MAP"
    then have "res k = sa k" using rk by blast
    with k sa(2) show "res k = Some (section_chars ?bs (Some k))" by simp
  qed
  from t b w show ?thesis unfolding Let_def by blast
qed

lemma analyze_request_returns:
  "(let messages = dict_get body ''messages'' (JArr []);
        tools = dict_get body ''tools'' (JArr []);
        r = analyze_request py_str json_dumps body
    in (dicts_only messages \<and> has_len tools \<longrightarrow> (\<exists>res. r = Inr res)) \<and>
       (\<not> has_len messages \<longrightarrow> r = Inl TypeError) \<and>
       (has_len messages \<and> \<not> dicts_only messages \<longrightarrow> r = Inl AttributeError) \<and>
       (dicts_only messages \<and> \<not> has_len tools \<longrightarrow> r = Inl TypeError))"
proof -
  let ?sys = "system_of_json py_str (dict_get body ''system'' (JArr []))"
  let ?m = "dict_get body ''messages'' (JArr [])"
  let ?t = "dict_get body ''tools'' (JArr [])"
  from analyze_system_prompt_result[of ?sys] obtain sa where
    sa: "analyze_system_prompt ?sys = Inr sa" by blast
  let ?result0 = "zero_workspace
            [''system_prompt_total_chars'' \<mapsto> 0, ''base_prompt_chars'' \<mapsto> 0,
             ''message_count'' \<mapsto> 0, ''user_message_count'' \<mapsto> 0,
             ''assistant_message_count'' \<mapsto> 0, ''conversation_history_chars'' \<mapsto> 0,
             ''tool_count'' \<mapsto> (0::int)]"
  define result1 where "result1 = (if truthy_system ?sys then ?result0 ++ sa else ?result0)"
  have ar1: "analyze_request py_str json_dumps body =
      py_bind (analyze_messages json_dumps ?m) (\<lambda>msg_analysis.
      py_bind (py_len ?t) (\<lambda>tool_count.
        Inr ((result1 ++ msg_analysis)(''tool_count'' \<mapsto> int tool_count))))"
    by (simp add: analyze_request_def Let_def sa result1_def py_bind_def
        truthy_system_of_json)
  note am = analyze_messages_result[of ?m json_dumps]
  have a: "dicts_only ?m \<and> has_len ?t \<longrightarrow>
      (\<exists>res. analyze_request py_str json_dumps body = Inr res)"
  proof
    assume h: "dicts_only ?m \<and> has_len ?t"
    with am obtain ma where "analyze_messages json_dumps ?m = Inr ma" by blast
    moreover from h has_len_py_len obtain n where "py_len ?t = Inr n" by blast
    ultimately show "\<exists>res. analyze_request py_str json_dumps body = Inr res"
      unfolding ar1 by (simp add: py_bind_def)
  qed
  have b: "\<not> has_len ?m \<longrightarrow> analyze_request py_str json_dumps body = Inl TypeError"
    using am unfolding ar1 by (simp add: py_bind_def)
  have c: "has_len ?m \<and> \<not> dicts_only ?m \<longrightarrow>
      analyze_request py_str json_dumps body = Inl AttributeError"
    using am unfolding ar1 by (simp add: py_bind_def)
  have d: "dicts_only ?m \<and> \<not> has_len ?t \<longrightarrow>
      analyze_request py_str json_dumps body = Inl TypeError"
  proof
    assume h: "dicts_only ?m \<and> \<not> has_len ?t"
    with am obtain ma where "analyze_messages json_dumps ?m = Inr ma" by blast
    moreover from h no_len_py_len have "py_len ?t = Inl TypeError" by blast
    ultimately show "analyze_request py_str json_dumps body = Inl TypeError"
      unfolding ar1 by (simp add: py_bind_def)
  qed
  show ?thesis unfolding Let_def by (intro conjI a b c d)
qed

lemma ball_fst_nth:
  "(\<forall>fn \<in> fst ` set m. P fn) \<longleftrightarrow> (\<forall>i < length m. P (fst (m ! i)))"
proof
  assume a: "\<forall>fn \<in> fst ` set m. P fn"
  show "\<forall>i < length m. P (fst (m ! i))"
  proof (intro allI impI)
    fix i assume "i < length m"
    then have "fst (m ! i) \<in> fst ` set m" by simp
    with a show "P (fst (m ! i))" by (rule bspec)
  qed
next
  assume a: "\<forall>i < length m. P (fst (m ! i))"
  show "\<forall>fn \<in> fst ` set m. P fn"
  proof
    fix fn assume "fn \<in> fst ` set m"
    then obtain p where p: "p \<in> set m" "fn = fst p" by (rule imageE)
    from p(1) obtain i where i: "i < length m" "m ! i = p" unfolding in_set_conv_nth by (elim exE conjE)
    from a i(1) have "P (fst (m ! i))" by simp
    then show "P fn" unfolding i(2) p(2) .
  qed
qed

text \<open>
  C5 (as amended). For every system prompt given as a list of blocks, the returned total is
  the sum of the blocks' text lengths, and each block's length goes to exactly one
  destination, \<open>block_section\<close>: the base-prompt total or one workspace section. A block
  is attributed to a section exactly when its text contains, anywhere in it (not only at the
  start of a line), the marker \<open>#\<close>, a space and that section's file name (which covers
  the two-marker form), and contains no such marker for a section earlier in the fixed list
  order; a block containing no such marker contributes entirely to the base-prompt total.
\<close>

theorem system_prompt_attribution:
  "(\<exists>res. analyze_system_prompt (SysList blocks) = Inr res \<and>
      res ''system_prompt_total_chars'' = Some (\<Sum>b \<leftarrow> blocks. block_len b) \<and>
      res ''base_prompt_chars'' = Some (section_chars blocks None) \<and>
      (\<forall>i < length WORKSPACE_FILE_MAP.
         res (snd (WORKSPACE_FILE_MAP ! i)) =
           Some (section_chars blocks (Some (snd (WORKSPACE_FILE_MAP ! i)))))) \<and>
   (\<forall>b t. block_text b = Some t \<longrightarrow>
      (block_section b = None \<longleftrightarrow>
         (\<forall>i < length WORKSPACE_FILE_MAP. \<not> sublist (''# '' @ fst (WORKSPACE_FILE_MAP ! i)) t)) \<and>
      (\<forall>i < length WORKSPACE_FILE_MAP.
         block_section b = Some (snd (WORKSPACE_FILE_MAP ! i)) \<longleftrightarrow>
           sublist (''# '' @ fst (WORKSPACE_FILE_MAP ! i)) t \<and>
           (\<forall>j < i. \<not> sublist (''# '' @ fst (WORKSPACE_FILE_MAP ! j)) t)))"
proof (intro conjI allI impI)
  from analyze_system_prompt_result[of "SysList blocks"] obtain res where
    r: "analyze_system_prompt (SysList blocks) = Inr res"
       "\<forall>k. res k =
        (if k \<in> snd ` set WORKSPACE_FILE_MAP then Some (section_chars blocks (Some k))
         else if k = ''base_prompt_chars'' then Some (section_chars blocks None)
         else if k = ''system_prompt_total_chars'' then Some (\<Sum>b \<leftarrow> blocks. block_len b)
         else None)"
    by (auto simp: system_blocks_def)
  have nk: "''base_prompt_chars'' \<notin> snd ` set WORKSPACE_FILE_MAP"
    "''system_prompt_total_chars'' \<notin> snd ` set WORKSPACE_FILE_MAP"
    by (simp_all add: WORKSPACE_FILE_MAP_def)
  have t: "res ''system_prompt_total_chars'' = Some (\<Sum>b \<leftarrow> blocks. block_len b)"
    using r(2) nk by simp
  have b: "res ''base_prompt_chars'' = Some (section_chars blocks None)"
    using r(2) nk by simp
  have w: "\<forall>i < length WORKSPACE_FILE_MAP.
         res (snd (WORKSPACE_FILE_MAP ! i)) =
           Some (section_chars blocks (Some (snd (WORKSPACE_FILE_MAP ! i))))"
  proof (intro allI impI)
    fix i assume "i < length WORKSPACE_FILE_MAP"
    then have "snd (WORKSPACE_FILE_MAP ! i) \<in> snd ` set WORKSPACE_FILE_MAP" by simp
    with r(2) show "res (snd (WORKSPACE_FILE_MAP ! i)) =
           Some (section_chars blocks (Some (snd (WORKSPACE_FILE_MAP ! i))))" by simp
  qed
  from r(1) t b w show "\<exists>res. analyze_system_prompt (SysList blocks) = Inr res \<and>
      res ''system_prompt_total_chars'' = Some (\<Sum>b \<leftarrow> blocks. block_len b) \<and>
      res ''base_prompt_chars'' = Some (section_chars blocks None) \<and>
      (\<forall>i < length WORKSPACE_FILE_MAP.
         res (snd (WORKSPACE_FILE_MAP ! i)) =
           Some (section_chars blocks (Some (snd (WORKSPACE_FILE_MAP ! i)))))" by blast
next
  fix b t assume bt: "block_text b = Some t"
  have "match_workspace WORKSPACE_FILE_MAP t = None \<longleftrightarrow>
      (\<forall>i < length WORKSPACE_FILE_MAP. \<not> sublist (''# '' @ fst (WORKSPACE_FILE_MAP ! i)) t)"
    unfolding match_workspace_None by (rule ball_fst_nth)
  with bt show "block_section b = None \<longleftrightarrow>
         (\<forall>i < length WORKSPACE_FILE_MAP. \<not> sublist (''# '' @ fst (WORKSPACE_FILE_MAP ! i)) t)"
    by (simp add: block_section_def del: append.simps)
next
  fix b t i assume bt: "block_text b = Some t" and i: "i < length WORKSPACE_FILE_MAP"
  from bt show "block_section b = Some (snd (WORKSPACE_FILE_MAP ! i)) \<longleftrightarrow>
           sublist (''# '' @ fst (WORKSPACE_FILE_MAP ! i)) t \<and>
           (\<forall>j < i. \<not> sublist (''# '' @ fst (WORKSPACE_FILE_MAP ! j)) t)"
    using match_workspace_nth[OF distinct_ws_keys i, of t]
    by (simp add: block_section_def del: append.simps)
qed

theorem system_prompt_attribution_witness:
  "metric_of (analyze_system_prompt (SysList example_blocks)) ''system_prompt_total_chars'' = Some 73 \<and>
   metric_of (analyze_system_prompt (SysList example_blocks)) ''base_prompt_chars'' = Some 23 \<and>
   metric_of (analyze_system_prompt (SysList example_blocks)) ''workspace_agents_chars'' = Some 32 \<and>
   metric_of (analyze_system_prompt (SysList example_blocks)) ''workspace_soul_chars'' = Some 18 \<and>
   block_text (example_blocks ! 2) = Some ''intro # AGENTS.md then # SOUL.md'' \<and>
   sublist ''# SOUL.md'' ''intro # AGENTS.md then # SOUL.md'' \<and>
   block_section (example_blocks ! 2) = Some ''workspace_agents_chars''"
proof -
  note T = system_prompt_attribution [of example_blocks]
  from T [THEN conjunct1] obtain res where
    r: "analyze_system_prompt (SysList example_blocks) = Inr res"
       "res ''system_prompt_total_chars'' = Some (\<Sum>b \<leftarrow> example_blocks. block_len b)"
       "res ''base_prompt_chars'' = Some (section_chars example_blocks None)"
       "\<forall>i < length WORKSPACE_FILE_MAP.
         res (snd (WORKSPACE_FILE_MAP ! i)) =
           Some (section_chars example_blocks (Some (snd (WORKSPACE_FILE_MAP ! i))))"
    by (elim exE conjE)
  have k0: "snd (WORKSPACE_FILE_MAP ! 0) = ''workspace_agents_chars''"
    and k1: "snd (WORKSPACE_FILE_MAP ! 1) = ''workspace_soul_chars''"
    and f0: "fst (WORKSPACE_FILE_MAP ! 0) = ''AGENTS.md''"
    and len: "length WORKSPACE_FILE_MAP = 8"
    by (simp_all add: WORKSPACE_FILE_MAP_def)
  have e1: "(\<Sum>b \<leftarrow> example_blocks. block_len b) = 73" by code_simp
  have e2: "section_chars example_blocks None = 23" by code_simp
  have e3: "section_chars example_blocks (Some ''workspace_agents_chars'') = 32" by code_simp
  have e4: "section_chars example_blocks (Some ''workspace_soul_chars'') = 18" by code_simp
  have m: "metric_of (analyze_system_prompt (SysList example_blocks)) k = res k" for k
    by (simp add: metric_of_def r(1))
  have a1: "metric_of (analyze_system_prompt (SysList example_blocks)) ''system_prompt_total_chars'' = Some 73"
    unfolding m r(2) e1 ..
  have a2: "metric_of (analyze_system_prompt (SysList example_blocks)) ''base_prompt_chars'' = Some 23"
    unfolding m r(3) e2 ..
  have "res (snd (WORKSPACE_FILE_MAP ! 0)) =
           Some (section_chars example_blocks (Some (snd (WORKSPACE_FILE_MAP ! 0))))"
    using r(4) len by simp
  then have a3: "metric_of (analyze_system_prompt (SysList example_blocks)) ''workspace_agents_chars'' = Some 32"
    unfolding m k0 e3 .
  have "res (snd (WORKSPACE_FILE_MAP ! 1)) =
           Some (section_chars example_blocks (Some (snd (WORKSPACE_FILE_MAP ! 1))))"
    using r(4) len by simp
  then have a4: "metric_of (analyze_system_prompt (SysList example_blocks)) ''workspace_soul_chars'' = Some 18"
    unfolding m k1 e4 .
  have bt: "block_text (example_blocks ! 2) = Some ''intro # AGENTS.md then # SOUL.md''"
    by (simp add: example_blocks_def block_text_def)
  have s1: "sublist ''# SOUL.md'' ''intro # AGENTS.md then # SOUL.md''" by code_simp
  have s0: "sublist (''# '' @ fst (WORKSPACE_FILE_MAP ! 0)) ''intro # AGENTS.md then # SOUL.md''"
    unfolding f0 by code_simp
  have i0: "0 < length WORKSPACE_FILE_MAP" unfolding len by simp
  note T2 = T [THEN conjunct2, THEN spec, THEN spec, THEN mp, OF bt, THEN conjunct2,
      THEN spec, THEN mp, OF i0]
  have "block_section (example_blocks ! 2) = Some (snd (WORKSPACE_FILE_MAP ! 0))"
    using T2 s0 by simp
  then have a5: "block_section (example_blocks ! 2) = Some ''workspace_agents_chars''"
    unfolding k0 .
  show ?thesis by (intro conjI a1 a2 a3 a4 bt s1 a5)
qed

text \<open>
  The claim as written asks for a line that begins with the heading. The text
  \<open>see # AGENTS.md\<close> has no such line for any section, yet its 15 characters are
  attributed to the AGENTS section and none to the base prompt.
\<close>

theorem system_prompt_attribution_counterexample:
  "\<not> heading_line_in_spec_words ''AGENTS.md'' ''see # AGENTS.md'' \<and>
   \<not> heading_line_in_spec_words ''SOUL.md'' ''see # AGENTS.md'' \<and>
   \<not> heading_line_in_spec_words ''TOOLS.md'' ''see # AGENTS.md'' \<and>
   \<not> heading_line_in_spec_words ''IDENTITY.md'' ''see # AGENTS.md'' \<and>
   \<not> heading_line_in_spec_words ''USER.md'' ''see # AGENTS.md'' \<and>
   \<not> heading_line_in_spec_words ''HEARTBEAT.md'' ''see # AGENTS.md'' \<and>
   \<not> heading_line_in_spec_words ''BOOTSTRAP.md'' ''see # AGENTS.md'' \<and>
   \<not> heading_line_in_spec_words ''MEMORY.md'' ''see # AGENTS.md'' \<and>
   metric_of (analyze_system_prompt (SysList [DictBlock (Some (TextStr ''see # AGENTS.md''))]))
     ''workspace_agents_chars'' = Some 15 \<and>
   metric_of (analyze_system_prompt (SysList [DictBlock (Some (TextStr ''see # AGENTS.md''))]))
     ''base_prompt_chars'' = Some 0"
  by code_simp

text \<open>
  C10. For every request body on which \<open>analyze_request\<close> returns a dict, the dict
  partitions the system prompt exactly. With \<open>bs\<close> the blocks of the body's system prompt,
  \<open>system_prompt_total_chars\<close> is the sum of the text lengths of the blocks,
  \<open>base_prompt_chars\<close> is the sum over the blocks attributed to no workspace file, each of
  the eight \<open>workspace_*_chars\<close> values is the sum over the blocks attributed to its file,
  the total equals the base count plus the sum of the eight workspace counts, and all of these
  counts are non-negative. The function returns exactly when the \<open>messages\<close> value is a
  list of dicts (or an empty string or dict) and the \<open>tools\<close> value has a length; otherwise
  it raises TypeError (\<open>messages\<close> not iterable, or \<open>tools\<close> without a length) or
  AttributeError (an item of \<open>messages\<close> that is not a dict).
\<close>

theorem analyze_request_partition:
  "(let messages = dict_get body ''messages'' (JArr []);
        tools = dict_get body ''tools'' (JArr []);
        bs = system_blocks (system_of_json py_str (dict_get body ''system'' (JArr [])));
        keys = map snd WORKSPACE_FILE_MAP;
        r = analyze_request py_str json_dumps body
    in (\<forall>res. r = Inr res \<longrightarrow>
          res ''system_prompt_total_chars'' = Some (\<Sum>b \<leftarrow> bs. block_len b) \<and>
          res ''base_prompt_chars'' = Some (section_chars bs None) \<and>
          map res keys = map (\<lambda>k. Some (section_chars bs (Some k))) keys) \<and>
       length keys = 8 \<and>
       (\<Sum>b \<leftarrow> bs. block_len b) =
         section_chars bs None + (\<Sum>k \<leftarrow> keys. section_chars bs (Some k)) \<and>
       0 \<le> (\<Sum>b \<leftarrow> bs. block_len b) \<and> 0 \<le> section_chars bs None \<and>
       list_all (\<lambda>k. 0 \<le> section_chars bs (Some k)) keys \<and>
       (dicts_only messages \<and> has_len tools \<longrightarrow> (\<exists>res. r = Inr res)) \<and>
       (\<not> has_len messages \<longrightarrow> r = Inl TypeError) \<and>
       (has_len messages \<and> \<not> dicts_only messages \<longrightarrow> r = Inl AttributeError) \<and>
       (dicts_only messages \<and> \<not> has_len tools \<longrightarrow> r = Inl TypeError))"
proof -
  let ?m = "dict_get body ''messages'' (JArr [])"
  let ?t = "dict_get body ''tools'' (JArr [])"
  let ?bs = "system_blocks (system_of_json py_str (dict_get body ''system'' (JArr [])))"
  let ?keys = "map snd WORKSPACE_FILE_MAP"
  let ?r = "analyze_request py_str json_dumps body"
  have p1: "\<forall>res. ?r = Inr res \<longrightarrow>
          res ''system_prompt_total_chars'' = Some (\<Sum>b \<leftarrow> ?bs. block_len b) \<and>
          res ''base_prompt_chars'' = Some (section_chars ?bs None) \<and>
          map res ?keys = map (\<lambda>k. Some (section_chars ?bs (Some k))) ?keys"
  proof (intro allI impI)
    fix res assume "?r = Inr res"
    from analyze_request_result[OF this] have
      r: "res ''system_prompt_total_chars'' = Some (\<Sum>b \<leftarrow> ?bs. block_len b)"
         "res ''base_prompt_chars'' = Some (section_chars ?bs None)"
         "\<forall>k \<in> snd ` set WORKSPACE_FILE_MAP. res k = Some (section_chars ?bs (Some k))"
      unfolding Let_def by blast+
    have "map res ?keys = map (\<lambda>k. Some (section_chars ?bs (Some k))) ?keys"
      using r(3) by simp
    with r(1,2) show "res ''system_prompt_total_chars'' = Some (\<Sum>b \<leftarrow> ?bs. block_len b) \<and>
          res ''base_prompt_chars'' = Some (section_chars ?bs None) \<and>
          map res ?keys = map (\<lambda>k. Some (section_chars ?bs (Some k))) ?keys" by simp
  qed
  have p2: "length ?keys = 8" by (simp add: WORKSPACE_FILE_MAP_def)
  have p3: "(\<Sum>b \<leftarrow> ?bs. block_len b) =
      section_chars ?bs None + (\<Sum>k \<leftarrow> ?keys. section_chars ?bs (Some k))"
    by (rule section_partition)
  have p4: "0 \<le> (\<Sum>b \<leftarrow> ?bs. block_len b)"
    by (rule sum_list_nonneg) (auto simp: block_len_nonneg)
  have p5: "0 \<le> section_chars ?bs None" by (rule section_chars_nonneg)
  have p6: "list_all (\<lambda>k. 0 \<le> section_chars ?bs (Some k)) ?keys"
    by (simp add: list_all_iff section_chars_nonneg)
  note R = analyze_request_returns[of body py_str json_dumps, unfolded Let_def]
  show ?thesis unfolding Let_def
    by (intro conjI p1 p2 p3 p4 p5 p6 R[THEN conjunct1] R[THEN conjunct2, THEN conjunct1]
        R[THEN conjunct2, THEN conjunct2, THEN conjunct1]
        R[THEN conjunct2, THEN conjunct2, THEN conjunct2])
qed

theorem analyze_request_partition_witness:
  "dicts_only (dict_get example_body ''messages'' (JArr [])) \<and>
   has_len (dict_get example_body ''tools'' (JArr [])) \<and>
   metric_of (analyze_request example_py_str example_json_dumps example_body)
     ''system_prompt_total_chars'' = Some 46 \<and>
   metric_of (analyze_request example_py_str example_json_dumps example_body)
     ''base_prompt_chars'' = Some 28 \<and>
   map (\<lambda>k. metric_of (analyze_request example_py_str example_json_dumps example_body) k)
     (map snd WORKSPACE_FILE_MAP) =
     [Some 0, Some 18, Some 0, Some 0, Some 0, Some 0, Some 0, Some 0] \<and>
   dicts_only (dict_get example_body_null_tools ''messages'' (JArr [])) \<and>
   \<not> has_len (dict_get example_body_null_tools ''tools'' (JArr [])) \<and>
   analyze_request example_py_str example_json_dumps example_body_null_tools = Inl TypeError \<and>
   has_len (dict_get example_body_bad_message ''messages'' (JArr [])) \<and>
   \<not> dicts_only (dict_get example_body_bad_message ''messages'' (JArr [])) \<and>
   analyze_request example_py_str example_json_dumps example_body_bad_message =
     Inl AttributeError"
proof -
  note T = analyze_request_partition [of example_body example_py_str example_json_dumps,
      unfolded Let_def]
  have d: "dicts_only (dict_get example_body ''messages'' (JArr []))" by code_simp
  have l: "has_len (dict_get example_body ''tools'' (JArr []))" by code_simp
  from T [THEN conjunct2, THEN conjunct2, THEN conjunct2, THEN conjunct2, THEN conjunct2,
      THEN conjunct2, THEN conjunct1, THEN mp, OF conjI [OF d l]]
  obtain res where res: "analyze_request example_py_str example_json_dumps example_body = Inr res" ..
  note P = T [THEN conjunct1, THEN spec, THEN mp, OF res]
  have tot: "(\<Sum>b \<leftarrow> system_blocks (system_of_json example_py_str
      (dict_get example_body ''system'' (JArr []))). block_len b) = 46"
    by code_simp
  have base: "section_chars (system_blocks (system_of_json example_py_str
      (dict_get example_body ''system'' (JArr [])))) None = 28"
    by code_simp
  have ws: "map (\<lambda>k. Some (section_chars (system_blocks (system_of_json example_py_str
      (dict_get example_body ''system'' (JArr [])))) (Some k))) (map snd WORKSPACE_FILE_MAP) =
      [Some 0, Some 18, Some 0, Some 0, Some 0, Some 0, Some 0, Some 0]"
    by code_simp
  have m1: "metric_of (analyze_request example_py_str example_json_dumps example_body)
     ''system_prompt_total_chars'' = Some 46"
    using P [THEN conjunct1] unfolding tot by (simp add: res metric_of_def)
  have m2: "metric_of (analyze_request example_py_str example_json_dumps example_body)
     ''base_prompt_chars'' = Some 28"
    using P [THEN conjunct2, THEN conjunct1] unfolding base by (simp add: res metric_of_def)
  have m3: "map (\<lambda>k. metric_of (analyze_request example_py_str example_json_dumps example_body) k)
     (map snd WORKSPACE_FILE_MAP) =
     [Some 0, Some 18, Some 0, Some 0, Some 0, Some 0, Some 0, Some 0]"
    using P [THEN conjunct2, THEN conjunct2] unfolding ws by (simp add: res metric_of_def)
  note T2 = analyze_request_partition [of example_body_null_tools example_py_str
      example_json_dumps, unfolded Let_def]
  have d2: "dicts_only (dict_get example_body_null_tools ''messages'' (JArr []))" by code_simp
  have l2: "\<not> has_len (dict_get example_body_null_tools ''tools'' (JArr []))" by code_simp
  have e2: "analyze_request example_py_str example_json_dumps example_body_null_tools =
      Inl TypeError"
    by (rule T2 [THEN conjunct2, THEN conjunct2, THEN conjunct2, THEN conjunct2, THEN conjunct2,
      THEN conjunct2, THEN conjunct2, THEN conjunct2, THEN conjunct2, THEN mp,
      OF conjI [OF d2 l2]])
  note T3 = analyze_request_partition [of example_body_bad_message example_py_str
      example_json_dumps, unfolded Let_def]
  have l3: "has_len (dict_get example_body_bad_message ''messages'' (JArr []))" by code_simp
  have d3: "\<not> dicts_only (dict_get example_body_bad_message ''messages'' (JArr []))"
    by code_simp
  have e3: "analyze_request example_py_str example_json_dumps example_body_bad_message =
      Inl AttributeError"
    by (rule T3 [THEN conjunct2, THEN conjunct2, THEN conjunct2, THEN conjunct2, THEN conjunct2,
      THEN conjunct2, THEN conjunct2, THEN conjunct2, THEN conjunct1, THEN mp,
      OF conjI [OF l3 d3]])
  show ?thesis by (intro conjI d l m1 m2 m3 d2 l2 e2 l3 d3 e3)
qed

subsection \<open>Provider registry\<close>

lemma join_sublist: "x \<in> set xs \<Longrightarrow> sublist x (join sep xs)"
proof (induction sep xs rule: join.induct)
  case (1 sep)
  then show ?case by simp
next
  case (2 sep y)
  then show ?case by simp
next
  case (3 sep y z zs)
  show ?case
  proof (cases "x = y")
    case True
    then show ?thesis by simp
  next
    case False
    with 3 have "sublist x (join sep (z # zs))" by simp
    then obtain ps ss where "join sep (z # zs) = ps @ x @ ss" by (auto simp: sublist_def)
    then have "join sep (y # z # zs) = (y @ sep @ ps) @ x @ ss" by simp
    then show ?thesis unfolding sublist_def by blast
  qed
qed

lemma sublist_append_right: "sublist x ys \<Longrightarrow> sublist x (zs @ ys)"
proof -
  assume "sublist x ys"
  then obtain ps ss where "ys = ps @ x @ ss" by (auto simp: sublist_def)
  then have "zs @ ys = (zs @ ps) @ x @ ss" by simp
  then show ?thesis unfolding sublist_def by blast
qed

lemma cache_valid_iff:
  "cache_valid reg \<longleftrightarrow> (\<forall>(n, obj) \<in> set (instances reg). obj < length (heap reg))"
  by (simp add: cache_valid_def list_all_iff)

lemma set_update_subset: "set (AList.update k v al) \<subseteq> insert (k, v) (set al)"
  by (induction al) auto

lemma cache_valid_empty: "cache_valid empty_registry"
  by (simp add: cache_valid_def empty_registry_def)

lemma cache_valid_register: "cache_valid reg \<Longrightarrow> cache_valid (register reg name cls)"
  by (simp add: cache_valid_def register_def)

lemma cache_valid_clear_cache: "cache_valid (clear_cache reg)"
  by (simp add: cache_valid_def clear_cache_def)

lemma set_delete_subset: "set (AList.delete k al) \<subseteq> set al"
  by (auto simp: AList.delete_eq)

lemma cache_valid_unregister: "cache_valid reg \<Longrightarrow> cache_valid (snd (unregister reg name))"
  using set_delete_subset[of "lower name" "instances reg"]
  by (auto simp: cache_valid_iff unregister_def Let_def)

lemma cache_valid_get:
  assumes "cache_valid reg"
  shows "cache_valid (snd (get reg name cfg))"
proof (cases "map_of (providers reg) (lower name)")
  case None
  with assms show ?thesis by (simp add: get_def Let_def)
next
  case (Some cls)
  show ?thesis
  proof (cases "truthy_config cfg")
    case True
    with Some assms show ?thesis
      by (fastforce simp: get_def Let_def construct_def cache_valid_iff)
  next
    case False
    show ?thesis
    proof (cases "map_of (instances reg) (lower name)")
      case None
      have "set (AList.update (lower name) (length (heap reg)) (instances reg))
              \<subseteq> insert (lower name, length (heap reg)) (set (instances reg))"
        by (rule set_update_subset)
      with Some False None assms show ?thesis
        by (fastforce simp: get_def Let_def construct_def cache_valid_iff)
    next
      case (Some obj)
      with \<open>map_of (providers reg) (lower name) = Some cls\<close> False assms show ?thesis
        by (simp add: get_def Let_def)
    qed
  qed
qed

lemma get_unknown:
  assumes "map_of (providers reg) (lower name) = None"
  shows "\<exists>msg. get reg name cfg = (Inl (ValueError msg), reg) \<and>
           msg = ''Unknown provider: '' @ name @ ''. Available: '' @
                 (if join '', '' (map fst (providers reg)) = [] then ''none''
                  else join '', '' (map fst (providers reg))) \<and>
           (\<forall>n \<in> fst ` set (providers reg). sublist n msg)"
proof -
  let ?joined = "join '', '' (map fst (providers reg))"
  let ?avail = "if ?joined = [] then ''none'' else ?joined"
  let ?msg = "''Unknown provider: '' @ name @ ''. Available: '' @ ?avail"
  have g: "get reg name cfg = (Inl (ValueError ?msg), reg)"
    using assms by (simp add: get_def Let_def)
  have "sublist n ?msg" if "n \<in> fst ` set (providers reg)" for n
  proof -
    from that have "sublist n ?joined" by (intro join_sublist) simp
    then have "sublist n ?avail" by (cases "?joined = []") auto
    then have "sublist n ((''Unknown provider: '' @ name @ ''. Available: '') @ ?avail)"
      by (rule sublist_append_right)
    then show ?thesis by simp
  qed
  with g show ?thesis by blast
qed

lemma get_default_twice:
  assumes ok: "cache_valid reg" and reg: "map_of (providers reg) (lower name) \<noteq> None"
  shows "\<exists>obj reg1. get reg name None = (Inr obj, reg1) \<and> get reg1 name None = (Inr obj, reg1) \<and>
           map_of (instances reg1) (lower name) = Some obj \<and> obj < length (heap reg1) \<and>
           providers reg1 = providers reg \<and> cache_valid reg1"
proof -
  from reg obtain cls where cls: "map_of (providers reg) (lower name) = Some cls" by auto
  show ?thesis
  proof (cases "map_of (instances reg) (lower name)")
    case None
    let ?obj = "length (heap reg)"
    let ?reg1 = "reg\<lparr>heap := heap reg @ [\<lparr>obj_class = cls, obj_config = []\<rparr>],
                      instances := AList.update (lower name) ?obj (instances reg)\<rparr>"
    have g1: "get reg name None = (Inr ?obj, ?reg1)"
      using cls None by (simp add: get_def Let_def truthy_config_def construct_def)
    have m: "map_of (instances ?reg1) (lower name) = Some ?obj"
      by (simp add: update_conv')
    have g2: "get ?reg1 name None = (Inr ?obj, ?reg1)"
      using cls m by (simp add: get_def Let_def truthy_config_def)
    have "cache_valid (snd (get reg name None))" by (rule cache_valid_get[OF ok])
    then have "cache_valid ?reg1" unfolding g1 by simp
    with g1 g2 m show ?thesis by auto
  next
    case (Some obj)
    have g1: "get reg name None = (Inr obj, reg)"
      using cls Some by (simp add: get_def Let_def truthy_config_def)
    from Some have "(lower name, obj) \<in> set (instances reg)" by (rule map_of_SomeD)
    with ok have "obj < length (heap reg)" by (auto simp: cache_valid_iff)
    with g1 Some ok show ?thesis by auto
  qed
qed

lemma get_override_fresh:
  assumes ok: "cache_valid reg" and cls: "map_of (providers reg) (lower name) = Some cls"
    and c: "c \<noteq> []"
  shows "\<exists>reg'. get reg name (Some c) = (Inr (length (heap reg)), reg') \<and>
           heap reg' = heap reg @ [\<lparr>obj_class = cls, obj_config = c\<rparr>] \<and>
           instances reg' = instances reg \<and> providers reg' = providers reg \<and>
           length (heap reg) \<notin> snd ` set (instances reg) \<and> cache_valid reg'"
proof -
  let ?reg' = "reg\<lparr>heap := heap reg @ [\<lparr>obj_class = cls, obj_config = c\<rparr>]\<rparr>"
  have g: "get reg name (Some c) = (Inr (length (heap reg)), ?reg')"
    using cls c by (simp add: get_def Let_def truthy_config_def construct_def)
  have f: "length (heap reg) \<notin> snd ` set (instances reg)"
    using ok by (fastforce simp: cache_valid_iff)
  have "cache_valid (snd (get reg name (Some c)))" by (rule cache_valid_get[OF ok])
  then have "cache_valid ?reg'" unfolding g by simp
  with g f show ?thesis by auto
qed

text \<open>
  C6 (as amended). In a registry whose cached references denote constructed objects:
  requesting an unregistered name fails with a ValueError whose message names the requested
  provider and lists the registered names (each occurs in it), and leaves the registry
  unchanged; requesting a registered name twice without a config returns the same reference
  both times, the one cached under the lower-cased name; and requesting a registered name with
  a non-empty config constructs a new object, one that no cached reference denotes, returns
  it and leaves the cache unchanged.
\<close>

theorem registry_get:
  assumes "cache_valid reg"
  shows "(map_of (providers reg) (lower name) = None \<longrightarrow>
            (\<exists>msg. get reg name cfg = (Inl (ValueError msg), reg) \<and>
               msg = ''Unknown provider: '' @ name @ ''. Available: '' @
                     (if join '', '' (map fst (providers reg)) = [] then ''none''
                      else join '', '' (map fst (providers reg))) \<and>
               (\<forall>n \<in> fst ` set (providers reg). sublist n msg))) \<and>
         (map_of (providers reg) (lower name) \<noteq> None \<longrightarrow>
            (\<exists>obj reg1. get reg name None = (Inr obj, reg1) \<and>
               get reg1 name None = (Inr obj, reg1) \<and>
               map_of (instances reg1) (lower name) = Some obj \<and> obj < length (heap reg1) \<and>
               providers reg1 = providers reg \<and> cache_valid reg1)) \<and>
         (\<forall>cls c. map_of (providers reg) (lower name) = Some cls \<and> c \<noteq> [] \<longrightarrow>
            (\<exists>reg'. get reg name (Some c) = (Inr (length (heap reg)), reg') \<and>
               heap reg' = heap reg @ [\<lparr>obj_class = cls, obj_config = c\<rparr>] \<and>
               instances reg' = instances reg \<and> providers reg' = providers reg \<and>
               length (heap reg) \<notin> snd ` set (instances reg) \<and> cache_valid reg'))"
proof (intro conjI allI impI)
  assume "map_of (providers reg) (lower name) = None"
  then show "\<exists>msg. get reg name cfg = (Inl (ValueError msg), reg) \<and>
               msg = ''Unknown provider: '' @ name @ ''. Available: '' @
                     (if join '', '' (map fst (providers reg)) = [] then ''none''
                      else join '', '' (map fst (providers reg))) \<and>
               (\<forall>n \<in> fst ` set (providers reg). sublist n msg)"
    by (rule get_unknown)
next
  assume "map_of (providers reg) (lower name) \<noteq> None"
  with assms show "\<exists>obj reg1. get reg name None = (Inr obj, reg1) \<and>
               get reg1 name None = (Inr obj, reg1) \<and>
               map_of (instances reg1) (lower name) = Some obj \<and> obj < length (heap reg1) \<and>
               providers reg1 = providers reg \<and> cache_valid reg1"
    by (rule get_default_twice)
next
  fix cls and c :: config assume a: "map_of (providers reg) (lower name) = Some cls \<and> c \<noteq> []"
  show "\<exists>reg'. get reg name (Some c) = (Inr (length (heap reg)), reg') \<and>
               heap reg' = heap reg @ [\<lparr>obj_class = cls, obj_config = c\<rparr>] \<and>
               instances reg' = instances reg \<and> providers reg' = providers reg \<and>
               length (heap reg) \<notin> snd ` set (instances reg) \<and> cache_valid reg'"
    by (rule get_override_fresh[OF assms a[THEN conjunct1] a[THEN conjunct2]])
qed

theorem registry_get_witness:
  "cache_valid initial_registry \<and>
   get initial_registry ''Gemini'' None =
     (Inl (ValueError ''Unknown provider: Gemini. Available: anthropic, openai, moonshot, local''),
      initial_registry) \<and>
   fst (get initial_registry ''Anthropic'' None) = Inr 0 \<and>
   fst (get (snd (get initial_registry ''Anthropic'' None)) ''Anthropic'' None) = Inr 0 \<and>
   fst (get (snd (get initial_registry ''Anthropic'' None)) ''anthropic''
          (Some [(''base_url'', ''http://localhost:9000'')])) = Inr 1"
proof -
  let ?reg1 = "snd (get initial_registry ''Anthropic'' None)"
  have ok: "cache_valid initial_registry" by code_simp
  have u: "map_of (providers initial_registry) (lower ''Gemini'') = None" by code_simp
  note T = registry_get [OF ok]
  from T [of "''Gemini''" None, THEN conjunct1, THEN mp, OF u] obtain msg where
    g: "get initial_registry ''Gemini'' None = (Inl (ValueError msg), initial_registry)"
    and m: "msg = ''Unknown provider: '' @ ''Gemini'' @ ''. Available: '' @
                     (if join '', '' (map fst (providers initial_registry)) = [] then ''none''
                      else join '', '' (map fst (providers initial_registry)))"
    by (elim exE conjE)
  have e: "''Unknown provider: '' @ ''Gemini'' @ ''. Available: '' @
                     (if join '', '' (map fst (providers initial_registry)) = [] then ''none''
                      else join '', '' (map fst (providers initial_registry)))
         = ''Unknown provider: Gemini. Available: anthropic, openai, moonshot, local''"
    by code_simp
  have w2: "get initial_registry ''Gemini'' None =
     (Inl (ValueError ''Unknown provider: Gemini. Available: anthropic, openai, moonshot, local''),
      initial_registry)"
    using g unfolding m e .
  have r: "map_of (providers initial_registry) (lower ''Anthropic'') \<noteq> None" by code_simp
  from T [of "''Anthropic''" None, THEN conjunct2, THEN conjunct1, THEN mp, OF r]
  obtain obj reg1 where
    d1: "get initial_registry ''Anthropic'' None = (Inr obj, reg1)"
    and d2: "get reg1 ''Anthropic'' None = (Inr obj, reg1)"
    by (elim exE conjE)
  have w3: "fst (get initial_registry ''Anthropic'' None) = Inr 0" by code_simp
  have "fst (get ?reg1 ''Anthropic'' None) = fst (get initial_registry ''Anthropic'' None)"
    unfolding d1 snd_conv d2 fst_conv ..
  then have w4: "fst (get ?reg1 ''Anthropic'' None) = Inr 0" unfolding w3 .
  have ok1: "cache_valid ?reg1" by code_simp
  have p1: "map_of (providers ?reg1) (lower ''anthropic'') = Some AnthropicProvider" by code_simp
  have ne: "[(''base_url'', ''http://localhost:9000'')] \<noteq> ([] :: config)" by simp
  have h1: "length (heap ?reg1) = 1" by code_simp
  from registry_get [OF ok1, of "''anthropic''" None, THEN conjunct2, THEN conjunct2, THEN spec,
      THEN spec, THEN mp, OF conjI [OF p1 ne]]
  obtain reg' where
    "get ?reg1 ''anthropic'' (Some [(''base_url'', ''http://localhost:9000'')]) =
       (Inr (length (heap ?reg1)), reg')"
    by (elim exE conjE)
  then have w5: "fst (get ?reg1 ''anthropic''
          (Some [(''base_url'', ''http://localhost:9000'')])) = Inr 1"
    unfolding h1 by simp
  show ?thesis by (intro conjI ok w2 w3 w4 w5)
qed

text \<open>
  With an empty dict as the config the claim as written fails: after one plain request has
  cached instance 0, a request with \<open>{}\<close> returns that cached instance and constructs
  nothing, because \<open>if config:\<close> tests the dict's truth value.
\<close>

theorem registry_get_counterexample:
  "map_of (instances (snd (get initial_registry ''anthropic'' None))) ''anthropic'' = Some 0 \<and>
   fst (get (snd (get initial_registry ''anthropic'' None)) ''anthropic'' (Some [])) = Inr 0 \<and>
   length (heap (snd (get initial_registry ''anthropic'' None))) = 1 \<and>
   length (heap (snd (get (snd (get initial_registry ''anthropic'' None)) ''anthropic'' (Some [])))) = 1"
  by code_simp

subsection \<open>Usage extraction from stream frames\<close>

lemma extract_usage_from_stream_skips:
  assumes "data_payload line = None \<or> (\<exists>s. data_payload line = Some s \<and> json_loads s = None)"
  shows "openai_extract_usage_from_stream json_loads line event_type = Inr None \<and>
         anthropic_extract_usage_from_stream json_loads line event_type = Inr None"
  using assms
  by (auto simp: openai_extract_usage_from_stream_def anthropic_extract_usage_from_stream_def)

text \<open>
  C7. The claim is that \<open>extract_usage_from_stream\<close> never raises on any line and event
  kind. Frames that are not data lines, the \<open>[DONE]\<close> sentinel and payloads that do not
  parse are indeed skipped with \<open>None\<close> (the lemma above). A payload that parses to a JSON
  value other than an object is not: on the line \<open>data: 1\<close>, where \<open>json.loads\<close> returns
  the integer 1, the OpenAI-compatible extractor raises AttributeError for every event kind, and
  the Anthropic extractor raises it for the event kinds \<open>message_start\<close> and
  \<open>message_delta\<close>.
\<close>

theorem extract_usage_from_stream_raises:
  assumes "json_loads ''1'' = Some (JInt 1)"
  shows "openai_extract_usage_from_stream json_loads ''data: 1'' event_type = Inl AttributeError \<and>
         anthropic_extract_usage_from_stream json_loads ''data: 1'' (Some ''message_start'') =
           Inl AttributeError \<and>
         anthropic_extract_usage_from_stream json_loads ''data: 1'' (Some ''message_delta'') =
           Inl AttributeError"
proof -
  have p: "data_payload ''data: 1'' = Some ''1''" by code_simp
  show ?thesis
    by (simp add: openai_extract_usage_from_stream_def anthropic_extract_usage_from_stream_def
        anthropic_message_start_def anthropic_message_delta_def p assms py_bind_def py_get_def)
qed

theorem extract_usage_from_stream_raises_witness:
  "example_json_loads ''1'' = Some (JInt 1) \<and>
   openai_extract_usage_from_stream example_json_loads ''data: 1'' None = Inl AttributeError \<and>
   anthropic_extract_usage_from_stream example_json_loads ''data: 1'' (Some ''message_start'') =
     Inl AttributeError"
proof -
  have e: "example_json_loads ''1'' = Some (JInt 1)" by (simp add: example_json_loads_def)
  note T = extract_usage_from_stream_raises [of example_json_loads, OF e]
  show ?thesis by (intro conjI e T [of None, THEN conjunct1] T [of None, THEN conjunct2, THEN conjunct1])
qed

end
